theory Spec2Isabelle
  imports Complex_Main
begin

section \<open>Values, errors and the world the loader runs in\<close>

text \<open>
  The loader (\<^verbatim>\<open>src/loader.py\<close>) works on whatever \<^verbatim>\<open>json.load\<close> returns: an untyped
  Python value. It is modelled by the datatype \<open>json\<close>; a \<^verbatim>\<open>dict\<close> is an association
  list whose first binding of a key is the one \<^verbatim>\<open>d[k]\<close> and \<^verbatim>\<open>d.get(k)\<close> see, \<^verbatim>\<open>None\<close> is
  \<open>JNull\<close>. A Python \<^verbatim>\<open>float\<close> is kept as the rational it denotes; the loader never
  computes with it.
\<close>

datatype json =
    JNull
  | JBool bool
  | JInt int
  | JFloat rat
  | JStr string
  | JArr "json list"
  | JObj "(string \<times> json) list"

text \<open>A naive \<^verbatim>\<open>datetime\<close> value, as \<^verbatim>\<open>datetime.now()\<close> and \<^verbatim>\<open>datetime.fromisoformat\<close> give.\<close>

record datetime =
  year :: nat
  month :: nat
  day :: nat
  hour :: nat
  minute :: nat
  second :: nat
  microsecond :: nat

text \<open>
  Every \<^verbatim>\<open>raise\<close> the two modules can meet is a value of \<open>error\<close>. \<open>StoreWriteError\<close> is
  whatever \<^verbatim>\<open>cursor.execute\<close> raises when the store rejects a row.
\<close>

datatype error =
    KeyError string
  | TypeError
  | ValueError
  | AttributeError
  | StoreWriteError
  | JSONDecodeError
  | FileNotFoundError
  | IsADirectoryError
  | NotADirectoryError
  | FileExistsError

text \<open>The 22-tuple \<^verbatim>\<open>values\<close> of \<^verbatim>\<open>insert_event\<close>, one field per column of the statement.\<close>

record row =
  event_id :: json
  event_type :: json
  user_id :: json
  session_id :: json
  timestamp :: datetime
  page_url :: json
  device :: json
  browser :: json
  product_id :: json
  product_name :: json
  price :: json
  quantity :: json
  order_id :: json
  total_amount :: json
  items_count :: json
  payment_method :: json
  shipping_city :: json
  shipping_state :: json
  shipping_zip :: json
  rating :: json
  review_text :: json
  verified_purchase :: json

text \<open>
  What the text of a file is to \<^verbatim>\<open>json.load\<close>: a document that parses to a value, or
  text that does not parse. \<^verbatim>\<open>json.dump\<close> followed by \<^verbatim>\<open>json.load\<close> is taken to give the
  value back, so a file written by \<^verbatim>\<open>json.dump\<close> holds \<open>Doc v\<close>.
\<close>

datatype content = Doc json | Garbage

datatype node = File content | Dir "string list"

text \<open>Each \<^verbatim>\<open>print\<close> call of the loader, with the data it interpolates.\<close>

datatype msg =
    MsgRule
  | MsgTitle
  | MsgConnected
  | MsgConnectError
  | MsgLoading string
  | MsgFound nat
  | MsgProcessed nat nat
  | MsgInsertFailed nat error
  | MsgComplete nat
  | MsgWarnFailed nat
  | MsgNoFiles string
  | MsgFoundFiles nat
  | MsgSummaryHead
  | MsgTotalLoaded nat
  | MsgTotalErrors nat
  | MsgFilesProcessed nat
  | MsgNextStep
  | MsgSaved nat string

text \<open>
  Everything the program does to the outside, in the order it does it: the trace is what
  the temporal properties are stated on.
\<close>

datatype action =
    Connect
  | Listdir string
  | OpenFile string
  | Execute row
  | Rejected row
  | Commit
  | Close
  | Print msg

text \<open>
  The world: the file system (path to node; in a \<open>Dir\<close> the names in the order
  \<^verbatim>\<open>os.listdir\<close> returns them), the staging table (rows of the open transaction and
  committed rows), whether the connection is open, and the trace.
\<close>

record world =
  fs :: "(string \<times> node) list"
  db_pending :: "row list"
  db_committed :: "row list"
  conn_open :: bool
  trace :: "action list"

text \<open>
  The behaviour of the libraries and of the store, which is not code of this repository,
  is a parameter of every function: how \<^verbatim>\<open>datetime.fromisoformat\<close> parses (\<open>None\<close>: it raises
  \<^verbatim>\<open>ValueError\<close>), how \<^verbatim>\<open>isoformat\<close> and \<^verbatim>\<open>strftime("%Y%m%d_%H%M%S")\<close> print, what
  \<^verbatim>\<open>round(x, 2)\<close> gives, whether \<^verbatim>\<open>pymysql.connect\<close> succeeds, and which rows the store accepts
  given the rows it already holds.
\<close>

record env =
  fromisoformat :: "string \<Rightarrow> datetime option"
  isoformat :: "datetime \<Rightarrow> string"
  strftime :: "datetime \<Rightarrow> string"
  round2 :: "rat \<Rightarrow> rat"
  connectable :: bool
  accepts :: "row list \<Rightarrow> row \<Rightarrow> bool"

definition emit :: "action \<Rightarrow> world \<Rightarrow> world" where
  "emit a w = w\<lparr>trace := trace w @ [a]\<rparr>"

definition print :: "msg \<Rightarrow> world \<Rightarrow> world" where
  "print m w = emit (Print m) w"

section \<open>Python operations on untyped values\<close>

text \<open>\<^verbatim>\<open>d.get(k)\<close> and \<^verbatim>\<open>d.get(k, default)\<close> on a dict.\<close>

definition dict_get_default :: "(string \<times> json) list \<Rightarrow> string \<Rightarrow> json \<Rightarrow> json" where
  "dict_get_default kvs k d = (case map_of kvs k of None \<Rightarrow> d | Some v \<Rightarrow> v)"

definition dict_get :: "(string \<times> json) list \<Rightarrow> string \<Rightarrow> json" where
  "dict_get kvs k = dict_get_default kvs k JNull"

text \<open>\<^verbatim>\<open>x[k]\<close> with a string key: \<^verbatim>\<open>KeyError\<close> on a dict without the key, \<^verbatim>\<open>TypeError\<close> on
  every value that is not a dict.\<close>

fun py_getitem :: "json \<Rightarrow> string \<Rightarrow> error + json" where
  "py_getitem (JObj kvs) k = (case map_of kvs k of None \<Rightarrow> Inl (KeyError k) | Some v \<Rightarrow> Inr v)"
| "py_getitem _ k = Inl TypeError"

text \<open>\<^verbatim>\<open>x.get(k)\<close>: only a dict has the method.\<close>

fun py_get :: "json \<Rightarrow> string \<Rightarrow> error + json" where
  "py_get (JObj kvs) k = Inr (dict_get kvs k)"
| "py_get _ k = Inl AttributeError"

text \<open>\<^verbatim>\<open>datetime.fromisoformat(x)\<close>: \<^verbatim>\<open>TypeError\<close> unless \<open>x\<close> is a string, \<^verbatim>\<open>ValueError\<close> when
  the string does not parse.\<close>

fun py_fromisoformat :: "env \<Rightarrow> json \<Rightarrow> error + datetime" where
  "py_fromisoformat E (JStr s) =
     (case fromisoformat E s of None \<Rightarrow> Inl ValueError | Some d \<Rightarrow> Inr d)"
| "py_fromisoformat E _ = Inl TypeError"

text \<open>\<^verbatim>\<open>len(x)\<close> and the items \<^verbatim>\<open>enumerate(x, 1)\<close> runs over: a list gives its elements, a
  dict its keys, a string its characters; the other values have no length.\<close>

fun py_items :: "json \<Rightarrow> error + json list" where
  "py_items (JArr xs) = Inr xs"
| "py_items (JObj kvs) = Inr (map (\<lambda>kv. JStr (fst kv)) kvs)"
| "py_items (JStr s) = Inr (map (\<lambda>c. JStr [c]) s)"
| "py_items _ = Inl TypeError"

section \<open>loader.py\<close>

text \<open>\<^verbatim>\<open>get_db_connection\<close>: the exception of \<^verbatim>\<open>pymysql.connect\<close> is caught and \<^verbatim>\<open>None\<close>
  returned (\<open>False\<close> here; a connection object is truthy).\<close>

definition get_db_connection :: "env \<Rightarrow> world \<Rightarrow> bool \<times> world" where
  "get_db_connection E w =
     (if connectable E
      then (True, print MsgConnected (emit Connect (w\<lparr>conn_open := True\<rparr>)))
      else (False, print MsgConnectError w))"

text \<open>Lines 36 and 58 to 83 of \<^verbatim>\<open>insert_event\<close>: the tuple of values, or the exception
  raised while building it.\<close>

definition event_values :: "env \<Rightarrow> json \<Rightarrow> error + row" where
  "event_values E event =
     (case py_getitem event ''timestamp'' of
        Inl e \<Rightarrow> Inl e
      | Inr t \<Rightarrow>
          (case py_fromisoformat E t of
             Inl e \<Rightarrow> Inl e
           | Inr ts \<Rightarrow>
               (case event of
                  JObj kvs \<Rightarrow>
                    (let shipping = dict_get_default kvs ''shipping_address'' (JObj []) in
                     (case py_get shipping ''city'' of
                        Inl e \<Rightarrow> Inl e
                      | Inr city \<Rightarrow>
                     (case py_get shipping ''state'' of
                        Inl e \<Rightarrow> Inl e
                      | Inr state \<Rightarrow>
                     (case py_get shipping ''zip'' of
                        Inl e \<Rightarrow> Inl e
                      | Inr zipcode \<Rightarrow>
                          Inr \<lparr> event_id = dict_get kvs ''event_id'',
                                event_type = dict_get kvs ''event_type'',
                                user_id = dict_get kvs ''user_id'',
                                session_id = dict_get kvs ''session_id'',
                                timestamp = ts,
                                page_url = dict_get kvs ''page_url'',
                                device = dict_get kvs ''device'',
                                browser = dict_get kvs ''browser'',
                                product_id = dict_get kvs ''product_id'',
                                product_name = dict_get kvs ''product_name'',
                                price = dict_get kvs ''price'',
                                quantity = dict_get kvs ''quantity'',
                                order_id = dict_get kvs ''order_id'',
                                total_amount = dict_get kvs ''total_amount'',
                                items_count = dict_get kvs ''items_count'',
                                payment_method = dict_get kvs ''payment_method'',
                                shipping_city = city,
                                shipping_state = state,
                                shipping_zip = zipcode,
                                rating = dict_get kvs ''rating'',
                                review_text = dict_get kvs ''review_text'',
                                verified_purchase = dict_get kvs ''verified_purchase'' \<rparr>))))
                | _ \<Rightarrow> Inl AttributeError)))"

text \<open>\<^verbatim>\<open>cursor.execute(sql, values)\<close>: the row joins the open transaction, or the store
  rejects it and raises.\<close>

definition cursor_execute :: "env \<Rightarrow> row \<Rightarrow> world \<Rightarrow> (error + unit) \<times> world" where
  "cursor_execute E r w =
     (if accepts E (db_committed w @ db_pending w) r
      then (Inr (), emit (Execute r) (w\<lparr>db_pending := db_pending w @ [r]\<rparr>))
      else (Inl StoreWriteError, emit (Rejected r) w))"

definition insert_event :: "env \<Rightarrow> json \<Rightarrow> world \<Rightarrow> (error + unit) \<times> world" where
  "insert_event E event w =
     (case event_values E event of
        Inl e \<Rightarrow> (Inl e, w)
      | Inr r \<Rightarrow> cursor_execute E r w)"

text \<open>\<^verbatim>\<open>connection.commit()\<close>.\<close>

definition commit :: "world \<Rightarrow> world" where
  "commit w = emit Commit
     (w\<lparr>db_committed := db_committed w @ db_pending w, db_pending := []\<rparr>)"

text \<open>\<^verbatim>\<open>connection.close()\<close>: rows never committed are gone.\<close>

definition close :: "world \<Rightarrow> world" where
  "close w = emit Close (w\<lparr>conn_open := False, db_pending := []\<rparr>)"

text \<open>
  The \<^verbatim>\<open>for idx, event in enumerate(events, 1)\<close> loop of \<^verbatim>\<open>load_json_file\<close>. \<open>n\<close> is
  \<^verbatim>\<open>len(events)\<close>, \<open>idx\<close> the index of the first event of the list, \<open>s\<close> and \<open>e\<close> are
  \<^verbatim>\<open>success_count\<close> and \<^verbatim>\<open>error_count\<close>.
\<close>

fun insert_loop ::
  "env \<Rightarrow> nat \<Rightarrow> nat \<Rightarrow> json list \<Rightarrow> nat \<Rightarrow> nat \<Rightarrow> world \<Rightarrow> (nat \<times> nat) \<times> world" where
  "insert_loop E n idx [] s e w = ((s, e), w)"
| "insert_loop E n idx (event # events) s e w =
     (case insert_event E event w of
        (Inr u, w1) \<Rightarrow>
          insert_loop E n (idx + 1) events (s + 1) e
            (if idx mod 50 = 0 then print (MsgProcessed idx n) w1 else w1)
      | (Inl x, w1) \<Rightarrow>
          insert_loop E n (idx + 1) events s (e + 1) (print (MsgInsertFailed idx x) w1))"

text \<open>\<^verbatim>\<open>open(filepath, 'r')\<close> followed by \<^verbatim>\<open>json.load(f)\<close>.\<close>

definition read_json :: "string \<Rightarrow> world \<Rightarrow> (error + json) \<times> world" where
  "read_json filepath w =
     (case map_of (fs w) filepath of
        None \<Rightarrow> (Inl FileNotFoundError, w)
      | Some (Dir names) \<Rightarrow> (Inl IsADirectoryError, w)
      | Some (File c) \<Rightarrow>
          (case c of
             Garbage \<Rightarrow> (Inl JSONDecodeError, emit (OpenFile filepath) w)
           | Doc j \<Rightarrow> (Inr j, emit (OpenFile filepath) w)))"

definition load_json_file :: "env \<Rightarrow> string \<Rightarrow> world \<Rightarrow> (error + nat \<times> nat) \<times> world" where
  "load_json_file E filepath w =
     (case read_json filepath (print (MsgLoading filepath) w) of
        (Inl x, w1) \<Rightarrow> (Inl x, w1)
      | (Inr events, w1) \<Rightarrow>
          (case py_items events of
             Inl x \<Rightarrow> (Inl x, w1)
           | Inr items \<Rightarrow>
               (case insert_loop E (length items) 1 items 0 0 (print (MsgFound (length items)) w1) of
                  ((success_count, error_count), w2) \<Rightarrow>
                    (let w3 = print (MsgComplete success_count) (commit w2);
                         w4 = (if error_count > 0 then print (MsgWarnFailed error_count) w3 else w3)
                     in (Inr (success_count, error_count), w4)))))"

text \<open>\<^verbatim>\<open>os.listdir(d)\<close>: the names in \<open>d\<close>, in the order the system gives them.\<close>

definition listdir :: "string \<Rightarrow> world \<Rightarrow> (error + string list) \<times> world" where
  "listdir d w =
     (case map_of (fs w) d of
        None \<Rightarrow> (Inl FileNotFoundError, w)
      | Some (File c) \<Rightarrow> (Inl NotADirectoryError, w)
      | Some (Dir names) \<Rightarrow> (Inr names, emit (Listdir d) w))"

text \<open>\<^verbatim>\<open>s.endswith(suf)\<close> and \<^verbatim>\<open>os.path.join(a, b)\<close> (POSIX).\<close>

definition endswith :: "string \<Rightarrow> string \<Rightarrow> bool" where
  "endswith s suf = (length suf \<le> length s \<and> drop (length s - length suf) s = suf)"

definition path_join :: "string \<Rightarrow> string \<Rightarrow> string" where
  "path_join a b =
     (if take 1 b = ''/'' then b
      else if a = [] \<or> endswith a ''/'' then a @ b
      else a @ ''/'' @ b)"

text \<open>
  The \<^verbatim>\<open>for json_file in json_files\<close> loop of \<^verbatim>\<open>load_all_events\<close>, with the running
  \<^verbatim>\<open>total_success\<close> and \<^verbatim>\<open>total_errors\<close>. The call of \<^verbatim>\<open>load_json_file\<close> is not inside any
  \<^verbatim>\<open>try\<close>: what it raises ends the loop and leaves \<^verbatim>\<open>load_all_events\<close>.
\<close>

fun load_files ::
  "env \<Rightarrow> string \<Rightarrow> string list \<Rightarrow> nat \<Rightarrow> nat \<Rightarrow> world \<Rightarrow> (error + nat \<times> nat) \<times> world" where
  "load_files E events_dir [] total_success total_errors w =
     (Inr (total_success, total_errors), w)"
| "load_files E events_dir (json_file # rest) total_success total_errors w =
     (case load_json_file E (path_join events_dir json_file) w of
        (Inl x, w1) \<Rightarrow> (Inl x, w1)
      | (Inr (success, errors), w1) \<Rightarrow>
          load_files E events_dir rest (total_success + success) (total_errors + errors) w1)"

text \<open>Several \<^verbatim>\<open>print\<close> calls in a row.\<close>

definition prints :: "msg list \<Rightarrow> world \<Rightarrow> world" where
  "prints ms w = foldl (\<lambda>v m. print m v) w ms"

definition load_all_events :: "env \<Rightarrow> string \<Rightarrow> world \<Rightarrow> (error + unit) \<times> world" where
  "load_all_events E events_dir w =
     (case get_db_connection E (prints [MsgRule, MsgTitle, MsgRule] w) of
        (connection, w1) \<Rightarrow>
          if \<not> connection then (Inr (), w1)
          else
            (case listdir events_dir w1 of
               (Inl x, w2) \<Rightarrow> (Inl x, w2)
             | (Inr names, w2) \<Rightarrow>
                 (let json_files = filter (\<lambda>f. endswith f ''.json'') names in
                  if json_files = []
                  then (Inr (), close (print (MsgNoFiles events_dir) w2))
                  else
                    (case load_files E events_dir json_files 0 0
                            (print (MsgFoundFiles (length json_files)) w2) of
                       (Inl x, w3) \<Rightarrow> (Inl x, w3)
                     | (Inr (total_success, total_errors), w3) \<Rightarrow>
                         (Inr (),
                          prints [MsgRule, MsgSummaryHead, MsgTotalLoaded total_success,
                                  MsgTotalErrors total_errors,
                                  MsgFilesProcessed (length json_files), MsgRule, MsgNextStep]
                            (close w3))))))"

section \<open>event_generator.py\<close>

text \<open>
  What one call of a generator draws from \<^verbatim>\<open>random\<close>, \<^verbatim>\<open>Faker\<close> and the clock. The integer
  draws are raw naturals that \<open>randint\<close> and \<open>choice\<close> bring into range; the float draws
  of \<^verbatim>\<open>random.uniform\<close> are given as the values drawn.
\<close>

record draws =
  uuid_event :: string
  uuid_session :: string
  uuid_order :: string
  rand_user :: nat
  now :: datetime
  rand_category :: nat
  uri_page :: string
  rand_device :: nat
  rand_browser :: nat
  rand_product :: nat
  catch_phrase :: string
  uniform_price :: rat
  rand_quantity :: nat
  rand_items :: nat
  uniform_item :: "nat \<Rightarrow> rat"
  rand_payment :: nat
  city :: string
  state_abbr :: string
  zipcode :: string
  rand_rating :: nat
  sentence :: string
  rand_verified :: nat

definition randint :: "int \<Rightarrow> int \<Rightarrow> nat \<Rightarrow> int" where
  "randint a b r = a + int (r mod nat (b - a + 1))"

definition choice :: "'a list \<Rightarrow> nat \<Rightarrow> 'a" where
  "choice xs r = xs ! (r mod length xs)"

definition generate_page_view :: "env \<Rightarrow> draws \<Rightarrow> json" where
  "generate_page_view E d =
     (let categories = [''electronics'', ''clothing'', ''books'', ''home'', ''sports'', ''toys''] in
      JObj [(''event_type'', JStr ''page_view''),
            (''event_id'', JStr (uuid_event d)),
            (''user_id'', JInt (randint 1000 9999 (rand_user d))),
            (''session_id'', JStr (uuid_session d)),
            (''timestamp'', JStr (isoformat E (now d))),
            (''page_url'',
               JStr (''/products/'' @ choice categories (rand_category d) @ ''/'' @ uri_page d)),
            (''device'', JStr (choice [''mobile'', ''desktop'', ''tablet''] (rand_device d))),
            (''browser'',
               JStr (choice [''Chrome'', ''Firefox'', ''Safari'', ''Edge''] (rand_browser d)))])"

definition generate_add_to_cart :: "env \<Rightarrow> draws \<Rightarrow> json" where
  "generate_add_to_cart E d =
     JObj [(''event_type'', JStr ''add_to_cart''),
           (''event_id'', JStr (uuid_event d)),
           (''user_id'', JInt (randint 1000 9999 (rand_user d))),
           (''session_id'', JStr (uuid_session d)),
           (''timestamp'', JStr (isoformat E (now d))),
           (''product_id'', JInt (randint 100 999 (rand_product d))),
           (''product_name'', JStr (catch_phrase d)),
           (''price'', JFloat (round2 E (uniform_price d))),
           (''quantity'', JInt (randint 1 3 (rand_quantity d)))]"

text \<open>The sum of the item prices is taken exactly; the float sum of the source may differ
  from it in the last bits.\<close>

definition generate_purchase :: "env \<Rightarrow> draws \<Rightarrow> json" where
  "generate_purchase E d =
     (let num_items = randint 1 5 (rand_items d);
          item_total = sum_list (map (\<lambda>i. round2 E (uniform_item d i)) [0..<nat num_items])
      in
      JObj [(''event_type'', JStr ''purchase''),
            (''event_id'', JStr (uuid_event d)),
            (''order_id'', JStr (uuid_order d)),
            (''user_id'', JInt (randint 1000 9999 (rand_user d))),
            (''timestamp'', JStr (isoformat E (now d))),
            (''total_amount'', JFloat (round2 E item_total)),
            (''items_count'', JInt num_items),
            (''payment_method'',
               JStr (choice [''credit_card'', ''paypal'', ''debit_card'', ''apple_pay'']
                       (rand_payment d))),
            (''shipping_address'',
               JObj [(''city'', JStr (city d)),
                     (''state'', JStr (state_abbr d)),
                     (''zip'', JStr (zipcode d))])])"

definition generate_product_review :: "env \<Rightarrow> draws \<Rightarrow> json" where
  "generate_product_review E d =
     JObj [(''event_type'', JStr ''product_review''),
           (''event_id'', JStr (uuid_event d)),
           (''user_id'', JInt (randint 1000 9999 (rand_user d))),
           (''product_id'', JInt (randint 100 999 (rand_product d))),
           (''timestamp'', JStr (isoformat E (now d))),
           (''rating'', JInt (randint 1 5 (rand_rating d))),
           (''review_text'', JStr (sentence d)),
           (''verified_purchase'', JBool (choice [True, False] (rand_verified d)))]"





section \<open>A reference environment\<close>

text \<open>
  One concrete behaviour of the libraries, to run the model on examples: \<^verbatim>\<open>isoformat\<close> of a
  naive \<^verbatim>\<open>datetime\<close> as Python prints it (\<^verbatim>\<open>YYYY-MM-DDTHH:MM:SS\<close>, then \<^verbatim>\<open>.ffffff\<close> when the
  microseconds are not zero), and a \<^verbatim>\<open>fromisoformat\<close> that reads that form, with \<^verbatim>\<open>T\<close> or a
  space between date and time, and checks the ranges of the fields. Python's parser
  accepts more forms; the theorems below hold for every environment and do not depend
  on this one.
\<close>

definition digit :: "nat \<Rightarrow> char" where
  "digit n = ''0123456789'' ! (n mod 10)"

definition pad2 :: "nat \<Rightarrow> string" where
  "pad2 n = [digit (n div 10), digit n]"

definition pad4 :: "nat \<Rightarrow> string" where
  "pad4 n = [digit (n div 1000), digit (n div 100), digit (n div 10), digit n]"

definition pad6 :: "nat \<Rightarrow> string" where
  "pad6 n = [digit (n div 100000), digit (n div 10000), digit (n div 1000),
             digit (n div 100), digit (n div 10), digit n]"

definition digit_val :: "char \<Rightarrow> nat option" where
  "digit_val c = map_of
     [(CHR ''0'', 0), (CHR ''1'', 1), (CHR ''2'', 2), (CHR ''3'', 3), (CHR ''4'', 4),
      (CHR ''5'', 5), (CHR ''6'', 6), (CHR ''7'', 7), (CHR ''8'', 8), (CHR ''9'', 9)] c"

fun number_acc :: "nat \<Rightarrow> string \<Rightarrow> nat option" where
  "number_acc a [] = Some a"
| "number_acc a (c # cs) =
     (case digit_val c of None \<Rightarrow> None | Some v \<Rightarrow> number_acc (10 * a + v) cs)"

definition number :: "string \<Rightarrow> nat option" where
  "number s = (if s = [] then None else number_acc 0 s)"

definition is_leap :: "nat \<Rightarrow> bool" where
  "is_leap y = (if y mod 100 = 0 then y mod 400 = 0 else y mod 4 = 0)"

definition days_in_month :: "nat \<Rightarrow> nat \<Rightarrow> nat" where
  "days_in_month y m =
     (if m = 2 then (if is_leap y then 29 else 28)
      else if m \<in> {4, 6, 9, 11} then 30 else 31)"

definition valid_datetime :: "datetime \<Rightarrow> bool" where
  "valid_datetime d =
     (1 \<le> year d \<and> year d \<le> 9999 \<and> 1 \<le> month d \<and> month d \<le> 12 \<and>
      1 \<le> day d \<and> day d \<le> days_in_month (year d) (month d) \<and>
      hour d < 24 \<and> minute d < 60 \<and> second d < 60 \<and> microsecond d < 1000000)"

definition ref_isoformat :: "datetime \<Rightarrow> string" where
  "ref_isoformat d =
     pad4 (year d) @ ''-'' @ pad2 (month d) @ ''-'' @ pad2 (day d) @ ''T'' @
     pad2 (hour d) @ '':'' @ pad2 (minute d) @ '':'' @ pad2 (second d) @
     (if microsecond d = 0 then [] else ''.'' @ pad6 (microsecond d))"

definition ref_strftime :: "datetime \<Rightarrow> string" where
  "ref_strftime d =
     pad4 (year d) @ pad2 (month d) @ pad2 (day d) @ ''_'' @
     pad2 (hour d) @ pad2 (minute d) @ pad2 (second d)"

definition slice :: "nat \<Rightarrow> nat \<Rightarrow> string \<Rightarrow> string" where
  "slice i j s = take (j - i) (drop i s)"

definition ref_fromisoformat :: "string \<Rightarrow> datetime option" where
  "ref_fromisoformat s =
     (if (length s = 19 \<or> (length s = 26 \<and> slice 19 20 s = ''.''))
         \<and> slice 4 5 s = ''-'' \<and> slice 7 8 s = ''-''
         \<and> (slice 10 11 s = ''T'' \<or> slice 10 11 s = '' '')
         \<and> slice 13 14 s = '':'' \<and> slice 16 17 s = '':''
      then
        (case (number (slice 0 4 s), number (slice 5 7 s), number (slice 8 10 s),
               number (slice 11 13 s), number (slice 14 16 s), number (slice 17 19 s),
               (if length s = 19 then Some 0 else number (slice 20 26 s))) of
           (Some y, Some mo, Some d, Some h, Some mi, Some sec, Some us) \<Rightarrow>
             (let t = \<lparr> year = y, month = mo, day = d, hour = h, minute = mi,
                        second = sec, microsecond = us \<rparr>
              in if valid_datetime t then Some t else None)
         | _ \<Rightarrow> None)
      else None)"

text \<open>A store that takes every row.\<close>

definition accept_all :: "row list \<Rightarrow> row \<Rightarrow> bool" where
  "accept_all rows r = True"

definition ref_env :: env where
  "ref_env = \<lparr> fromisoformat = ref_fromisoformat, isoformat = ref_isoformat,
               strftime = ref_strftime, round2 = (\<lambda>x. of_int (round (x * 100)) / 100),
               connectable = True, accepts = accept_all \<rparr>"

definition empty_world :: world where
  "empty_world = \<lparr> fs = [], db_pending = [], db_committed = [], conn_open = False,
                   trace = [] \<rparr>"

section \<open>Reading a trace\<close>

text \<open>The rows executed successfully, and the failures reported (record index and error),
  in the order they occur in a piece of trace.\<close>

fun executed_rows :: "action list \<Rightarrow> row list" where
  "executed_rows [] = []"
| "executed_rows (Execute r # as) = r # executed_rows as"
| "executed_rows (a # as) = executed_rows as"

fun failure_reports :: "action list \<Rightarrow> (nat \<times> error) list" where
  "failure_reports [] = []"
| "failure_reports (Print (MsgInsertFailed i x) # as) = (i, x) # failure_reports as"
| "failure_reports (a # as) = failure_reports as"

text \<open>The paths opened, in order.\<close>

fun opened_paths :: "action list \<Rightarrow> string list" where
  "opened_paths [] = []"
| "opened_paths (OpenFile p # as) = p # opened_paths as"
| "opened_paths (a # as) = opened_paths as"

fun is_print :: "action \<Rightarrow> bool" where
  "is_print (Print m) = True"
| "is_print _ = False"

section \<open>Example inputs\<close>

definition ok_page_view :: json where
  "ok_page_view = JObj [(''event_type'', JStr ''page_view''), (''event_id'', JStr ''e-1''),
     (''user_id'', JInt 1234), (''timestamp'', JStr ''2024-03-09T14:05:07'')]"

definition bad_timestamp :: json where
  "bad_timestamp = JObj [(''event_type'', JStr ''page_view''), (''event_id'', JStr ''e-2''),
     (''timestamp'', JStr ''not-a-date'')]"

definition no_timestamp :: json where
  "no_timestamp = JObj [(''event_type'', JStr ''purchase''), (''event_id'', JStr ''e-3'')]"

definition batch_world :: world where
  "batch_world = empty_world\<lparr> fs := [(''data/events/a.json'',
       File (Doc (JArr [ok_page_view, bad_timestamp, no_timestamp])))] \<rparr>"

text \<open>Whether line 36 of \<^verbatim>\<open>insert_event\<close> raises on a record that is a dict: the key
  \<^verbatim>\<open>timestamp\<close> is missing, or its value is not a string that \<^verbatim>\<open>fromisoformat\<close> parses.\<close>

definition timestamp_fails :: "env \<Rightarrow> json \<Rightarrow> bool" where
  "timestamp_fails E event =
     (case event of
        JObj kvs \<Rightarrow>
          (case map_of kvs ''timestamp'' of
             None \<Rightarrow> True
           | Some t \<Rightarrow> (case py_fromisoformat E t of Inl x \<Rightarrow> True | Inr d \<Rightarrow> False))
      | _ \<Rightarrow> False)"

text \<open>The columns filled by \<^verbatim>\<open>event.get(key)\<close>, with the key each one reads.\<close>

definition flat_columns :: "(string \<times> (row \<Rightarrow> json)) list" where
  "flat_columns =
     [(''event_id'', event_id), (''event_type'', event_type), (''user_id'', user_id),
      (''session_id'', session_id), (''page_url'', page_url), (''device'', device),
      (''browser'', browser), (''product_id'', product_id), (''product_name'', product_name),
      (''price'', price), (''quantity'', quantity), (''order_id'', order_id),
      (''total_amount'', total_amount), (''items_count'', items_count),
      (''payment_method'', payment_method), (''rating'', rating),
      (''review_text'', review_text), (''verified_purchase'', verified_purchase)]"

text \<open>
  The data model on a raw record. \<open>variant_fields t\<close> are the keys the generator of the
  variant named \<open>t\<close> writes, which are the fields section 3 of the specification defines
  for it. A record follows the data model when its \<^verbatim>\<open>event_type\<close> is a string, it has no key
  outside the fields of that variant, and, for a purchase, its \<^verbatim>\<open>shipping_address\<close> is a
  nested object.
\<close>

definition variant_fields :: "string \<Rightarrow> string list" where
  "variant_fields t =
     (if t = ''page_view'' then
        [''event_type'', ''event_id'', ''user_id'', ''session_id'', ''timestamp'',
         ''page_url'', ''device'', ''browser'']
      else if t = ''add_to_cart'' then
        [''event_type'', ''event_id'', ''user_id'', ''session_id'', ''timestamp'',
         ''product_id'', ''product_name'', ''price'', ''quantity'']
      else if t = ''purchase'' then
        [''event_type'', ''event_id'', ''order_id'', ''user_id'', ''timestamp'',
         ''total_amount'', ''items_count'', ''payment_method'', ''shipping_address'']
      else if t = ''product_review'' then
        [''event_type'', ''event_id'', ''user_id'', ''product_id'', ''timestamp'',
         ''rating'', ''review_text'', ''verified_purchase'']
      else [])"

definition follows_schema :: "(string \<times> json) list \<Rightarrow> bool" where
  "follows_schema kvs =
     (case map_of kvs ''event_type'' of
        Some (JStr t) \<Rightarrow>
          list_all (\<lambda>k. k \<in> set (variant_fields t)) (map fst kvs) \<and>
          (if t = ''purchase''
           then (case map_of kvs ''shipping_address'' of Some (JObj sh) \<Rightarrow> True | _ \<Rightarrow> False)
           else True)
      | _ \<Rightarrow> False)"

text \<open>A purchase and a page view that follow the data model, and the rows they are mapped
  to.\<close>

definition small_purchase :: "(string \<times> json) list" where
  "small_purchase =
     [(''event_type'', JStr ''purchase''), (''event_id'', JStr ''e-5''),
      (''timestamp'', JStr ''2024-03-09T14:05:07''),
      (''shipping_address'', JObj [(''city'', JStr ''Oslo''), (''zip'', JStr ''0150'')])]"

definition small_purchase_row :: row where
  "small_purchase_row =
     \<lparr> event_id = JStr ''e-5'', event_type = JStr ''purchase'', user_id = JNull,
       session_id = JNull,
       timestamp = \<lparr> year = 2024, month = 3, day = 9, hour = 14, minute = 5, second = 7,
                     microsecond = 0 \<rparr>,
       page_url = JNull, device = JNull, browser = JNull, product_id = JNull,
       product_name = JNull, price = JNull, quantity = JNull, order_id = JNull,
       total_amount = JNull, items_count = JNull, payment_method = JNull,
       shipping_city = JStr ''Oslo'', shipping_state = JNull, shipping_zip = JStr ''0150'',
       rating = JNull, review_text = JNull, verified_purchase = JNull \<rparr>"

definition small_page_view :: "(string \<times> json) list" where
  "small_page_view =
     [(''event_type'', JStr ''page_view''), (''event_id'', JStr ''e-1''),
      (''user_id'', JInt 1234), (''timestamp'', JStr ''2024-03-09T14:05:07'')]"

definition small_page_view_row :: row where
  "small_page_view_row =
     \<lparr> event_id = JStr ''e-1'', event_type = JStr ''page_view'', user_id = JInt 1234,
       session_id = JNull,
       timestamp = \<lparr> year = 2024, month = 3, day = 9, hour = 14, minute = 5, second = 7,
                     microsecond = 0 \<rparr>,
       page_url = JNull, device = JNull, browser = JNull, product_id = JNull,
       product_name = JNull, price = JNull, quantity = JNull, order_id = JNull,
       total_amount = JNull, items_count = JNull, payment_method = JNull,
       shipping_city = JNull, shipping_state = JNull, shipping_zip = JNull,
       rating = JNull, review_text = JNull, verified_purchase = JNull \<rparr>"

text \<open>The actions of the record loop: a statement executed or rejected, and the two
  messages of the loop.\<close>

fun is_record_action :: "action \<Rightarrow> bool" where
  "is_record_action (Execute r) = True"
| "is_record_action (Rejected r) = True"
| "is_record_action (Print (MsgProcessed i n)) = True"
| "is_record_action (Print (MsgInsertFailed i x)) = True"
| "is_record_action _ = False"

text \<open>The per-file reports in a piece of trace: the success counts printed, and the failure
  counts printed (a file without failures prints none).\<close>

fun reported_successes :: "action list \<Rightarrow> nat list" where
  "reported_successes [] = []"
| "reported_successes (Print (MsgComplete s) # as) = s # reported_successes as"
| "reported_successes (a # as) = reported_successes as"

fun reported_failures :: "action list \<Rightarrow> nat list" where
  "reported_failures [] = []"
| "reported_failures (Print (MsgWarnFailed e) # as) = e # reported_failures as"
| "reported_failures (a # as) = reported_failures as"

text \<open>What lines 93 to 96 of \<^verbatim>\<open>load_json_file\<close> raise on a path (\<^verbatim>\<open>open\<close>, \<^verbatim>\<open>json.load\<close>,
  \<^verbatim>\<open>len\<close>), \<open>None\<close> when they get through.\<close>

definition load_error :: "world \<Rightarrow> string \<Rightarrow> error option" where
  "load_error w p =
     (case map_of (fs w) p of
        None \<Rightarrow> Some FileNotFoundError
      | Some (Dir names) \<Rightarrow> Some IsADirectoryError
      | Some (File Garbage) \<Rightarrow> Some JSONDecodeError
      | Some (File (Doc j)) \<Rightarrow> (case py_items j of Inl x \<Rightarrow> Some x | Inr items \<Rightarrow> None))"

text \<open>An environment whose store cannot be reached, and three directories: one with a
  file that is not JSON between two good ones, one with only such a file, and one whose
  listing is not in filename order.\<close>

definition unreachable_env :: env where
  "unreachable_env = ref_env\<lparr> connectable := False \<rparr>"

definition three_files_world :: world where
  "three_files_world = empty_world\<lparr> fs :=
     [(''data/events'', Dir [''a.json'', ''broken.json'', ''c.json'']),
      (''data/events/a.json'', File (Doc (JArr [ok_page_view]))),
      (''data/events/broken.json'', File Garbage),
      (''data/events/c.json'', File (Doc (JArr [ok_page_view])))] \<rparr>"

definition only_garbage_world :: world where
  "only_garbage_world = empty_world\<lparr> fs :=
     [(''data/events'', Dir [''broken.json'']),
      (''data/events/broken.json'', File Garbage)] \<rparr>"

definition unsorted_world :: world where
  "unsorted_world = empty_world\<lparr> fs :=
     [(''data/events'', Dir [''b.json'', ''notes.txt'', ''a.json'']),
      (''data/events/a.json'', File (Doc (JArr [ok_page_view, bad_timestamp]))),
      (''data/events/b.json'', File (Doc (JArr [no_timestamp]))),
      (''data/events/notes.txt'', File Garbage)] \<rparr>"

text \<open>The four generators of \<^verbatim>\<open>event_generator.py\<close> under one name, chosen by variant.\<close>

datatype variant = PageView | AddToCart | Purchase | ProductReview

fun generate :: "env \<Rightarrow> variant \<Rightarrow> draws \<Rightarrow> json" where
  "generate E PageView d = generate_page_view E d"
| "generate E AddToCart d = generate_add_to_cart E d"
| "generate E Purchase d = generate_purchase E d"
| "generate E ProductReview d = generate_product_review E d"







text \<open>The rows sent to the store (executed or rejected), and the rows it rejected, in the
  order they occur in a piece of trace.\<close>

fun attempted_rows :: "action list \<Rightarrow> row list" where
  "attempted_rows [] = []"
| "attempted_rows (Execute r # as) = r # attempted_rows as"
| "attempted_rows (Rejected r # as) = r # attempted_rows as"
| "attempted_rows (a # as) = attempted_rows as"

fun rejected_rows :: "action list \<Rightarrow> row list" where
  "rejected_rows [] = []"
| "rejected_rows (Rejected r # as) = r # rejected_rows as"
| "rejected_rows (a # as) = rejected_rows as"

text \<open>Of a list of records: the rows of those that \<^verbatim>\<open>insert_event\<close> can map (lines 36 to
  83 raise nothing), in order, and the number of those it cannot map.\<close>

definition mapped_rows :: "env \<Rightarrow> json list \<Rightarrow> row list" where
  "mapped_rows E events =
     concat (map (\<lambda>event. case event_values E event of Inl x \<Rightarrow> [] | Inr r \<Rightarrow> [r]) events)"

definition mapping_failures :: "env \<Rightarrow> json list \<Rightarrow> nat" where
  "mapping_failures E events = length (filter (\<lambda>event. isl (event_values E event)) events)"

section \<open>The record loop of \<^verbatim>\<open>load_json_file\<close>\<close>

lemma executed_rows_append: "executed_rows (xs @ ys) = executed_rows xs @ executed_rows ys"
  by (induction xs rule: executed_rows.induct) simp_all

lemma failure_reports_append: "failure_reports (xs @ ys) = failure_reports xs @ failure_reports ys"
  by (induction xs rule: failure_reports.induct) simp_all

lemma insert_event_cases:
  assumes "insert_event E ev w = (r, w1)"
  shows "(\<exists>row. r = Inr () \<and> w1 = emit (Execute row) (w\<lparr>db_pending := db_pending w @ [row]\<rparr>))
       \<or> (\<exists>x. r = Inl x \<and> w1 = w)
       \<or> (\<exists>row. r = Inl StoreWriteError \<and> w1 = emit (Rejected row) w)"
  using assms
  by (auto simp: insert_event_def cursor_execute_def split: sum.splits if_splits)

lemma loop_body:
  "\<exists>s1 e1 w1 acts.
     (\<forall>evs. insert_loop E n idx (ev # evs) s e w = insert_loop E n (idx + 1) evs s1 e1 w1) \<and>
     trace w1 = trace w @ acts \<and> Commit \<notin> set acts \<and> Close \<notin> set acts \<and>
     list_all is_record_action acts \<and>
     db_pending w1 = db_pending w @ executed_rows acts \<and>
     s1 = s + length (executed_rows acts) \<and>
     e1 = e + length (failure_reports acts) \<and>
     length (executed_rows acts) + length (failure_reports acts) = 1 \<and>
     fs w1 = fs w \<and> db_committed w1 = db_committed w \<and> conn_open w1 = conn_open w"
proof -
  obtain r w0 where ie: "insert_event E ev w = (r, w0)" by (cases "insert_event E ev w")
  from insert_event_cases [OF ie] show ?thesis
  proof (elim disjE exE conjE)
    fix row assume "r = Inr ()" "w0 = emit (Execute row) (w\<lparr>db_pending := db_pending w @ [row]\<rparr>)"
    with ie show ?thesis
      apply (rule_tac x="s + 1" in exI)
      apply (rule_tac x="e" in exI)
      apply (rule_tac x="if idx mod 50 = 0 then print (MsgProcessed idx n) w0 else w0" in exI)
      apply (rule_tac x="if idx mod 50 = 0 then [Execute row, Print (MsgProcessed idx n)] else [Execute row]" in exI)
      by (simp add: emit_def print_def)
  next
    fix x assume "r = Inl x" "w0 = w"
    with ie show ?thesis
      apply (rule_tac x="s" in exI)
      apply (rule_tac x="e + 1" in exI)
      apply (rule_tac x="print (MsgInsertFailed idx x) w" in exI)
      apply (rule_tac x="[Print (MsgInsertFailed idx x)]" in exI)
      by (simp add: emit_def print_def)
  next
    fix row assume "r = Inl StoreWriteError" "w0 = emit (Rejected row) w"
    with ie show ?thesis
      apply (rule_tac x="s" in exI)
      apply (rule_tac x="e + 1" in exI)
      apply (rule_tac x="print (MsgInsertFailed idx StoreWriteError) w0" in exI)
      apply (rule_tac x="[Rejected row, Print (MsgInsertFailed idx StoreWriteError)]" in exI)
      by (simp add: emit_def print_def)
  qed
qed

lemma insert_loop_effect:
  "\<exists>s' e' w' acts.
     insert_loop E n idx evs s e w = ((s', e'), w') \<and>
     trace w' = trace w @ acts \<and> Commit \<notin> set acts \<and> Close \<notin> set acts \<and>
     list_all is_record_action acts \<and>
     db_pending w' = db_pending w @ executed_rows acts \<and>
     s' = s + length (executed_rows acts) \<and>
     e' = e + length (failure_reports acts) \<and>
     length (executed_rows acts) + length (failure_reports acts) = length evs \<and>
     fs w' = fs w \<and> db_committed w' = db_committed w \<and> conn_open w' = conn_open w"
proof (induction evs arbitrary: idx s e w)
  case Nil
  show ?case by (rule exI [of _ s], rule exI [of _ e], rule exI [of _ w], rule exI [of _ "[]"]) simp
next
  case (Cons ev evs)
  obtain s1 e1 w1 acts1 where
    step: "\<And>evs. insert_loop E n idx (ev # evs) s e w = insert_loop E n (idx + 1) evs s1 e1 w1"
    and b: "trace w1 = trace w @ acts1" "Commit \<notin> set acts1" "Close \<notin> set acts1"
      "list_all is_record_action acts1"
      "db_pending w1 = db_pending w @ executed_rows acts1"
      "s1 = s + length (executed_rows acts1)" "e1 = e + length (failure_reports acts1)"
      "length (executed_rows acts1) + length (failure_reports acts1) = 1"
      "fs w1 = fs w" "db_committed w1 = db_committed w" "conn_open w1 = conn_open w"
    using loop_body [of E n idx ev s e w] by blast
  obtain s' e' w' acts2 where
    r: "insert_loop E n (idx + 1) evs s1 e1 w1 = ((s', e'), w')"
    and c: "trace w' = trace w1 @ acts2" "Commit \<notin> set acts2" "Close \<notin> set acts2"
      "list_all is_record_action acts2"
      "db_pending w' = db_pending w1 @ executed_rows acts2"
      "s' = s1 + length (executed_rows acts2)" "e' = e1 + length (failure_reports acts2)"
      "length (executed_rows acts2) + length (failure_reports acts2) = length evs"
      "fs w' = fs w1" "db_committed w' = db_committed w1" "conn_open w' = conn_open w1"
    using Cons.IH [of "idx + 1" s1 e1 w1] by blast
  show ?case
    apply (rule exI [of _ s'], rule exI [of _ e'], rule exI [of _ w'], rule exI [of _ "acts1 @ acts2"])
    using step [of evs] r b c
    by (simp add: executed_rows_append failure_reports_append)
qed

text \<open>Unfolding sets for running the model on the example inputs.\<close>

lemmas ref_defs = ref_env_def ref_fromisoformat_def slice_def number_def digit_val_def
  valid_datetime_def days_in_month_def is_leap_def accept_all_def

lemmas run_defs = load_json_file_def read_json_def print_def emit_def commit_def
  insert_event_def event_values_def cursor_execute_def dict_get_def dict_get_default_def

section \<open>What one call of \<^verbatim>\<open>load_json_file\<close> does\<close>

lemma load_json_file_effect:
  assumes f: "map_of (fs w) p = Some (File (Doc j))" and it: "py_items j = Inr items"
  shows "\<exists>s e w' acts tail.
     load_json_file E p w = (Inr (s, e), w') \<and>
     trace w' = trace w @ [Print (MsgLoading p), OpenFile p, Print (MsgFound (length items))]
                  @ acts @ [Commit] @ tail \<and>
     Commit \<notin> set acts \<and> Close \<notin> set acts \<and> list_all is_record_action acts \<and>
     tail = Print (MsgComplete s) # (if e > 0 then [Print (MsgWarnFailed e)] else []) \<and>
     list_all is_print tail \<and>
     executed_rows tail = [] \<and> failure_reports tail = [] \<and>
     s = length (executed_rows acts) \<and> e = length (failure_reports acts) \<and>
     s + e = length items \<and>
     db_pending w' = [] \<and>
     db_committed w' = db_committed w @ db_pending w @ executed_rows acts \<and>
     fs w' = fs w \<and> conn_open w' = conn_open w"
proof -
  define w1 where "w1 = print (MsgFound (length items)) (emit (OpenFile p) (print (MsgLoading p) w))"
  have rj: "read_json p (print (MsgLoading p) w) = (Inr j, emit (OpenFile p) (print (MsgLoading p) w))"
    using f by (simp add: read_json_def print_def emit_def)
  obtain s e w2 acts where
    l: "insert_loop E (length items) 1 items 0 0 w1 = ((s, e), w2)"
    and b: "trace w2 = trace w1 @ acts" "Commit \<notin> set acts" "Close \<notin> set acts"
      "list_all is_record_action acts"
      "db_pending w2 = db_pending w1 @ executed_rows acts"
      "s = 0 + length (executed_rows acts)" "e = 0 + length (failure_reports acts)"
      "length (executed_rows acts) + length (failure_reports acts) = length items"
      "fs w2 = fs w1" "db_committed w2 = db_committed w1" "conn_open w2 = conn_open w1"
    using insert_loop_effect [of E "length items" 1 items 0 0 w1] by blast
  define tail where "tail = (if e > 0 then [Print (MsgComplete s), Print (MsgWarnFailed e)] else [Print (MsgComplete s)])"
  define w4 where "w4 = (if e > 0 then print (MsgWarnFailed e) (print (MsgComplete s) (commit w2)) else print (MsgComplete s) (commit w2))"
  have res: "load_json_file E p w = (Inr (s, e), w4)"
    using rj it l by (simp add: load_json_file_def w1_def w4_def Let_def)
  have w1t: "trace w1 = trace w @ [Print (MsgLoading p), OpenFile p, Print (MsgFound (length items))]"
    "db_pending w1 = db_pending w" "db_committed w1 = db_committed w" "fs w1 = fs w" "conn_open w1 = conn_open w"
    by (simp_all add: w1_def print_def emit_def)
  have w4t: "trace w4 = trace w2 @ [Commit] @ tail" "db_pending w4 = []"
    "db_committed w4 = db_committed w2 @ db_pending w2" "fs w4 = fs w2" "conn_open w4 = conn_open w2"
    by (simp_all add: w4_def tail_def print_def emit_def commit_def)
  have tl: "list_all is_print tail" "executed_rows tail = []" "failure_reports tail = []"
    "tail = Print (MsgComplete s) # (if e > 0 then [Print (MsgWarnFailed e)] else [])"
    by (simp_all add: tail_def)
  show ?thesis
    apply (rule exI [of _ s], rule exI [of _ e], rule exI [of _ w4], rule exI [of _ acts], rule exI [of _ tail])
    using res w1t w4t b tl by simp
qed

lemma insert_loop_append:
  "insert_loop E n idx (xs @ ys) s e w =
     (case insert_loop E n idx xs s e w of
        ((s1, e1), w1) \<Rightarrow> insert_loop E n (idx + length xs) ys s1 e1 w1)"
proof (induction xs arbitrary: idx s e w)
  case Nil
  show ?case by simp
next
  case (Cons x xs)
  show ?case
    by (cases "insert_event E x w") (simp add: Cons.IH split: sum.splits)
qed

lemma insert_loop_timestamp_failures:
  "insert_loop E n idx evs s e w = ((s', e'), w') \<Longrightarrow>
     e + length (filter (timestamp_fails E) evs) \<le> e'"
proof (induction evs arbitrary: idx s e w)
  case Nil
  then show ?case by simp
next
  case (Cons ev evs)
  show ?case
  proof (cases "timestamp_fails E ev")
    case True
    then obtain x where "event_values E ev = Inl x"
      by (auto simp: timestamp_fails_def event_values_def split: json.splits option.splits sum.splits)
    then have "insert_loop E n idx (ev # evs) s e w =
        insert_loop E n (idx + 1) evs s (e + 1) (print (MsgInsertFailed idx x) w)"
      by (simp add: insert_event_def)
    with Cons.prems have "insert_loop E n (idx + 1) evs s (e + 1)
        (print (MsgInsertFailed idx x) w) = ((s', e'), w')" by simp
    from Cons.IH [OF this] True show ?thesis by simp
  next
    case False
    obtain r w1 where ie: "insert_event E ev w = (r, w1)" by (cases "insert_event E ev w")
    show ?thesis
    proof (cases r)
      case (Inl x)
      with ie Cons.prems have "insert_loop E n (idx + 1) evs s (e + 1)
          (print (MsgInsertFailed idx x) w1) = ((s', e'), w')" by simp
      from Cons.IH [OF this] False show ?thesis by simp
    next
      case (Inr u)
      with ie Cons.prems have "insert_loop E n (idx + 1) evs (s + 1) e
          (if idx mod 50 = 0 then print (MsgProcessed idx n) w1 else w1) = ((s', e'), w')"
        by simp
      from Cons.IH [OF this] False show ?thesis by simp
    qed
  qed
qed

lemma load_json_file_timestamp_failures:
  assumes f: "map_of (fs w) p = Some (File (Doc (JArr records)))"
    and r: "load_json_file E p w = (Inr (sc, ec), w')"
  shows "length (filter (timestamp_fails E) records) \<le> ec"
proof -
  obtain s e w2 where l: "insert_loop E (length records) 1 records 0 0
      (print (MsgFound (length records)) (emit (OpenFile p) (print (MsgLoading p) w))) = ((s, e), w2)"
    by (metis surj_pair)
  have "load_json_file E p w = (Inr (s, e),
      (if e > 0 then print (MsgWarnFailed e) (print (MsgComplete s) (commit w2))
       else print (MsgComplete s) (commit w2)))"
    using f l by (simp add: load_json_file_def read_json_def print_def emit_def Let_def)
  with r have "ec = e" by simp
  with insert_loop_timestamp_failures [OF l] show ?thesis by simp
qed

text \<open>
  C6. For every well-formed batch file, \<^verbatim>\<open>load_json_file\<close> commits exactly once, after all
  records of the file have been attempted: in the trace it adds there is one \<open>Commit\<close>;
  before it lie as many attempts (rows executed and failures reported) as the file has
  records, after it none; and the commit makes the rows executed for the file permanent
  together.
\<close>

theorem commit_once_after_all_records:
  assumes "map_of (fs w) filepath = Some (File (Doc (JArr records)))"
  shows "\<exists>counts w' before after.
           load_json_file E filepath w = (Inr counts, w') \<and>
           trace w' = trace w @ before @ [Commit] @ after \<and>
           Commit \<notin> set before \<and> Commit \<notin> set after \<and>
           length (executed_rows before) + length (failure_reports before) = length records \<and>
           executed_rows after = [] \<and> failure_reports after = [] \<and>
           db_committed w' = db_committed w @ db_pending w @ executed_rows before \<and>
           db_pending w' = []"
proof -
  obtain s e w' acts tail where
    a: "load_json_file E filepath w = (Inr (s, e), w')"
      "trace w' = trace w @ [Print (MsgLoading filepath), OpenFile filepath,
                              Print (MsgFound (length records))] @ acts @ [Commit] @ tail"
      "Commit \<notin> set acts" "list_all is_print tail"
      "executed_rows tail = []" "failure_reports tail = []"
      "s = length (executed_rows acts)" "e = length (failure_reports acts)"
      "s + e = length records" "db_pending w' = []"
      "db_committed w' = db_committed w @ db_pending w @ executed_rows acts"
    using load_json_file_effect [OF assms, of records E] by auto
  have nc: "Commit \<notin> set tail"
    using a(4) by (induction tail) auto
  define before where "before = [Print (MsgLoading filepath), OpenFile filepath,
                              Print (MsgFound (length records))] @ acts"
  have b: "executed_rows before = executed_rows acts" "failure_reports before = failure_reports acts"
    "Commit \<notin> set before"
    using a(3) by (simp_all add: before_def)
  show ?thesis
    apply (rule exI [of _ "(s, e)"], rule exI [of _ w'], rule exI [of _ before], rule exI [of _ tail])
    using a b nc by (simp add: before_def)
qed

theorem commit_once_after_all_records_witness:
  "map_of (fs batch_world) ''data/events/a.json''
     = Some (File (Doc (JArr [ok_page_view, bad_timestamp, no_timestamp]))) \<and>
   (\<exists>counts w' before after.
      load_json_file ref_env ''data/events/a.json'' batch_world = (Inr counts, w') \<and>
      trace w' = trace batch_world @ before @ [Commit] @ after \<and>
      Commit \<notin> set before \<and> Commit \<notin> set after \<and>
      length (executed_rows before) + length (failure_reports before)
        = length [ok_page_view, bad_timestamp, no_timestamp] \<and>
      executed_rows after = [] \<and> failure_reports after = [] \<and>
      db_committed w' = db_committed batch_world @ db_pending batch_world @ executed_rows before \<and>
      db_pending w' = [])"
proof -
  have h: "map_of (fs batch_world) ''data/events/a.json''
     = Some (File (Doc (JArr [ok_page_view, bad_timestamp, no_timestamp])))"
    by (simp add: batch_world_def empty_world_def)
  show ?thesis
    using h commit_once_after_all_records [OF h, of ref_env] by blast
qed

text \<open>
  C10. For every record that lacks the field \<^verbatim>\<open>timestamp\<close>, \<^verbatim>\<open>insert_event\<close> raises
  (\<^verbatim>\<open>KeyError\<close>) with the world untouched, so before any statement is executed for the record,
  and the loop counts the record as a failure and goes on; a record whose \<^verbatim>\<open>timestamp\<close> is
  present and does not parse is treated the same way, with the error of
  \<^verbatim>\<open>fromisoformat\<close>. In the tallies of a file, the failure count is at least the number of
  such records.
\<close>

theorem missing_or_bad_timestamp_is_a_failure:
  "(map_of kvs ''timestamp'' = None \<longrightarrow>
      insert_event E (JObj kvs) w = (Inl (KeyError ''timestamp''), w) \<and>
      insert_loop E n idx (JObj kvs # rest) s e w =
        insert_loop E n (idx + 1) rest s (e + 1)
          (print (MsgInsertFailed idx (KeyError ''timestamp'')) w)) \<and>
   (map_of kvs ''timestamp'' = Some t \<and> py_fromisoformat E t = Inl x \<longrightarrow>
      insert_event E (JObj kvs) w = (Inl x, w) \<and>
      insert_loop E n idx (JObj kvs # rest) s e w =
        insert_loop E n (idx + 1) rest s (e + 1) (print (MsgInsertFailed idx x) w)) \<and>
   (map_of (fs w0) filepath = Some (File (Doc (JArr records))) \<and>
    load_json_file E filepath w0 = (Inr (success_count, error_count), w') \<longrightarrow>
      length (filter (timestamp_fails E) records) \<le> error_count)"
  using load_json_file_timestamp_failures [of w0 filepath records E success_count error_count w']
  by (simp add: insert_event_def event_values_def)

theorem missing_or_bad_timestamp_is_a_failure_witness:
  "map_of [(''event_type'', JStr ''purchase''), (''event_id'', JStr ''e-3'')] ''timestamp'' = None \<and>
   insert_event ref_env no_timestamp batch_world = (Inl (KeyError ''timestamp''), batch_world) \<and>
   map_of [(''event_type'', JStr ''page_view''), (''event_id'', JStr ''e-2''),
           (''timestamp'', JStr ''not-a-date'')] ''timestamp'' = Some (JStr ''not-a-date'') \<and>
   py_fromisoformat ref_env (JStr ''not-a-date'') = Inl ValueError \<and>
   insert_event ref_env bad_timestamp batch_world = (Inl ValueError, batch_world) \<and>
   map_of (fs batch_world) ''data/events/a.json''
     = Some (File (Doc (JArr [ok_page_view, bad_timestamp, no_timestamp]))) \<and>
   fst (load_json_file ref_env ''data/events/a.json'' batch_world) = Inr (1, 2) \<and>
   length (filter (timestamp_fails ref_env) [ok_page_view, bad_timestamp, no_timestamp]) \<le> 2"
proof -
  have h1: "map_of [(''event_type'', JStr ''purchase''), (''event_id'', JStr ''e-3'')] ''timestamp'' = None"
    by simp
  have h2: "map_of [(''event_type'', JStr ''page_view''), (''event_id'', JStr ''e-2''),
           (''timestamp'', JStr ''not-a-date'')] ''timestamp'' = Some (JStr ''not-a-date'')"
    by simp
  have h3: "py_fromisoformat ref_env (JStr ''not-a-date'') = Inl ValueError"
    by (simp add: ref_defs)
  have h4: "map_of (fs batch_world) ''data/events/a.json''
     = Some (File (Doc (JArr [ok_page_view, bad_timestamp, no_timestamp])))"
    by (simp add: batch_world_def empty_world_def)
  have h5: "fst (load_json_file ref_env ''data/events/a.json'' batch_world) = Inr (1, 2)"
    by (simp add: batch_world_def empty_world_def ok_page_view_def bad_timestamp_def
        no_timestamp_def ref_defs run_defs)
  then have h6: "load_json_file ref_env ''data/events/a.json'' batch_world
      = (Inr (1, 2), snd (load_json_file ref_env ''data/events/a.json'' batch_world))"
    by (metis prod.collapse)
  from missing_or_bad_timestamp_is_a_failure [of
      "[(''event_type'', JStr ''purchase''), (''event_id'', JStr ''e-3'')]" ref_env batch_world
      0 0 "[]" 0 0 JNull ValueError batch_world "''data/events/a.json''"
      "[ok_page_view, bad_timestamp, no_timestamp]" 1 2
      "snd (load_json_file ref_env ''data/events/a.json'' batch_world)"]
    missing_or_bad_timestamp_is_a_failure [of
      "[(''event_type'', JStr ''page_view''), (''event_id'', JStr ''e-2''),
        (''timestamp'', JStr ''not-a-date'')]" ref_env batch_world
      0 0 "[]" 0 0 "JStr ''not-a-date''" ValueError empty_world "[]" "[]" 0 0 empty_world]
    h1 h2 h3 h4 h5 h6
  show ?thesis unfolding no_timestamp_def bad_timestamp_def by blast
qed

section \<open>The row built by \<^verbatim>\<open>insert_event\<close>\<close>

text \<open>Each column read with \<^verbatim>\<open>event.get\<close> holds the value of its key, null when the record
  has not the key; the shipping columns come from the nested object.\<close>

lemma row_columns_by_key:
  assumes "event_values E (JObj kvs) = Inr r"
  shows "(\<forall>(k, col) \<in> set flat_columns.
            col r = (case map_of kvs k of None \<Rightarrow> JNull | Some v \<Rightarrow> v)) \<and>
         (map_of kvs ''shipping_address'' = None \<longrightarrow>
            shipping_city r = JNull \<and> shipping_state r = JNull \<and> shipping_zip r = JNull) \<and>
         (\<forall>sh. map_of kvs ''shipping_address'' = Some (JObj sh) \<longrightarrow>
            shipping_city r = dict_get sh ''city'' \<and>
            shipping_state r = dict_get sh ''state'' \<and>
            shipping_zip r = dict_get sh ''zip'')"
proof -
  from assms obtain ts c st z where
    sh: "py_get (dict_get_default kvs ''shipping_address'' (JObj [])) ''city'' = Inr c"
        "py_get (dict_get_default kvs ''shipping_address'' (JObj [])) ''state'' = Inr st"
        "py_get (dict_get_default kvs ''shipping_address'' (JObj [])) ''zip'' = Inr z"
    and r: "r = \<lparr> event_id = dict_get kvs ''event_id'',
                                event_type = dict_get kvs ''event_type'',
                                user_id = dict_get kvs ''user_id'',
                                session_id = dict_get kvs ''session_id'',
                                timestamp = ts,
                                page_url = dict_get kvs ''page_url'',
                                device = dict_get kvs ''device'',
                                browser = dict_get kvs ''browser'',
                                product_id = dict_get kvs ''product_id'',
                                product_name = dict_get kvs ''product_name'',
                                price = dict_get kvs ''price'',
                                quantity = dict_get kvs ''quantity'',
                                order_id = dict_get kvs ''order_id'',
                                total_amount = dict_get kvs ''total_amount'',
                                items_count = dict_get kvs ''items_count'',
                                payment_method = dict_get kvs ''payment_method'',
                                shipping_city = c,
                                shipping_state = st,
                                shipping_zip = z,
                                rating = dict_get kvs ''rating'',
                                review_text = dict_get kvs ''review_text'',
                                verified_purchase = dict_get kvs ''verified_purchase'' \<rparr>"
    by (auto simp: event_values_def Let_def split: sum.splits)
  have a: "\<forall>(k, col) \<in> set flat_columns.
            col r = (case map_of kvs k of None \<Rightarrow> JNull | Some v \<Rightarrow> v)"
    by (simp add: r flat_columns_def dict_get_def dict_get_default_def)
  have b: "map_of kvs ''shipping_address'' = None \<longrightarrow>
            shipping_city r = JNull \<and> shipping_state r = JNull \<and> shipping_zip r = JNull"
    using sh by (auto simp: r dict_get_def dict_get_default_def)
  have c: "\<forall>sh. map_of kvs ''shipping_address'' = Some (JObj sh) \<longrightarrow>
            shipping_city r = dict_get sh ''city'' \<and>
            shipping_state r = dict_get sh ''state'' \<and>
            shipping_zip r = dict_get sh ''zip''"
    using sh by (auto simp: r dict_get_default_def)
  from a b c show ?thesis by blast
qed

text \<open>Every generator writes a record that follows the data model.\<close>

lemma generated_follows_schema:
  "\<exists>kvs. generate E v d = JObj kvs \<and> follows_schema kvs"
  by (cases v)
    (simp_all add: generate_page_view_def generate_add_to_cart_def generate_purchase_def
      generate_product_review_def follows_schema_def variant_fields_def Let_def)

lemma schema_absent_key:
  assumes "follows_schema kvs" and "map_of kvs ''event_type'' = Some (JStr t)"
    and "k \<notin> set (variant_fields t)"
  shows "map_of kvs k = None"
proof -
  from assms(1,2) have "\<forall>k' \<in> fst ` set kvs. k' \<in> set (variant_fields t)"
    by (simp add: follows_schema_def list_all_iff)
  with assms(3) have "k \<notin> fst ` set kvs" by blast
  then show ?thesis by (simp add: map_of_eq_None_iff)
qed

lemma shipping_only_for_purchase:
  "t \<noteq> ''purchase'' \<Longrightarrow> ''shipping_address'' \<notin> set (variant_fields t)"
  by (simp add: variant_fields_def)

lemma purchase_has_shipping:
  assumes "follows_schema kvs" and "map_of kvs ''event_type'' = Some (JStr ''purchase'')"
  shows "\<exists>sh. map_of kvs ''shipping_address'' = Some (JObj sh)"
  using assms
  by (auto simp: follows_schema_def split: option.splits json.splits)

lemma small_purchase_values:
  "event_values ref_env (JObj small_purchase) = Inr small_purchase_row"
  by (simp add: small_purchase_def small_purchase_row_def event_values_def
      dict_get_def dict_get_default_def ref_defs)

lemma small_page_view_values:
  "event_values ref_env (JObj small_page_view) = Inr small_page_view_row"
  by (simp add: small_page_view_def small_page_view_row_def event_values_def
      dict_get_def dict_get_default_def ref_defs)

text \<open>
  C7. For every event record of the data model that is mapped to a row, every column of a
  field not defined for the event's variant is null, and the shipping columns (city, state,
  zip) are read from the nested \<^verbatim>\<open>shipping_address\<close> object when \<^verbatim>\<open>event_type\<close> is
  \<^verbatim>\<open>purchase\<close> and are null otherwise.
\<close>

theorem row_of_data_model_record:
  assumes "follows_schema kvs" and "map_of kvs ''event_type'' = Some (JStr t)"
    and "event_values E (JObj kvs) = Inr r"
  shows "(\<forall>(k, col) \<in> set flat_columns. k \<notin> set (variant_fields t) \<longrightarrow> col r = JNull) \<and>
         (t = ''purchase'' \<longrightarrow>
            (\<exists>sh. map_of kvs ''shipping_address'' = Some (JObj sh) \<and>
                  shipping_city r = dict_get sh ''city'' \<and>
                  shipping_state r = dict_get sh ''state'' \<and>
                  shipping_zip r = dict_get sh ''zip'')) \<and>
         (t \<noteq> ''purchase'' \<longrightarrow>
            shipping_city r = JNull \<and> shipping_state r = JNull \<and> shipping_zip r = JNull)"
proof -
  note a = row_columns_by_key [OF assms(3)]
  from a have a1: "\<forall>(k, col) \<in> set flat_columns.
            col r = (case map_of kvs k of None \<Rightarrow> JNull | Some v \<Rightarrow> v)"
    by (rule conjunct1)
  from a have a2: "map_of kvs ''shipping_address'' = None \<longrightarrow>
            shipping_city r = JNull \<and> shipping_state r = JNull \<and> shipping_zip r = JNull"
    by (rule conjunct1 [OF conjunct2])
  from a have a3: "\<forall>sh. map_of kvs ''shipping_address'' = Some (JObj sh) \<longrightarrow>
            shipping_city r = dict_get sh ''city'' \<and>
            shipping_state r = dict_get sh ''state'' \<and>
            shipping_zip r = dict_get sh ''zip''"
    by (rule conjunct2 [OF conjunct2])
  have 1: "\<forall>(k, col) \<in> set flat_columns. k \<notin> set (variant_fields t) \<longrightarrow> col r = JNull"
  proof (rule ballI)
    fix x assume m: "x \<in> set flat_columns"
    obtain k col where x: "x = (k, col)" by (cases x)
    from bspec [OF a1 m] x
    have c: "col r = (case map_of kvs k of None \<Rightarrow> JNull | Some v \<Rightarrow> v)" by simp
    have "k \<notin> set (variant_fields t) \<longrightarrow> col r = JNull"
    proof
      assume n: "k \<notin> set (variant_fields t)"
      from schema_absent_key [OF assms(1,2) n] c show "col r = JNull" by simp
    qed
    with x show "case x of (k, col) \<Rightarrow> k \<notin> set (variant_fields t) \<longrightarrow> col r = JNull"
      by simp
  qed
  have 2: "t = ''purchase'' \<longrightarrow>
            (\<exists>sh. map_of kvs ''shipping_address'' = Some (JObj sh) \<and>
                  shipping_city r = dict_get sh ''city'' \<and>
                  shipping_state r = dict_get sh ''state'' \<and>
                  shipping_zip r = dict_get sh ''zip'')"
  proof
    assume p: "t = ''purchase''"
    with assms(2) have "map_of kvs ''event_type'' = Some (JStr ''purchase'')" by simp
    from purchase_has_shipping [OF assms(1) this] obtain sh where
      sh: "map_of kvs ''shipping_address'' = Some (JObj sh)" ..
    from mp [OF spec [OF a3] sh] sh
    show "\<exists>sh. map_of kvs ''shipping_address'' = Some (JObj sh) \<and>
                  shipping_city r = dict_get sh ''city'' \<and>
                  shipping_state r = dict_get sh ''state'' \<and>
                  shipping_zip r = dict_get sh ''zip''"
      by (intro exI [of _ sh] conjI) simp_all
  qed
  have 3: "t \<noteq> ''purchase'' \<longrightarrow>
            shipping_city r = JNull \<and> shipping_state r = JNull \<and> shipping_zip r = JNull"
  proof
    assume "t \<noteq> ''purchase''"
    from schema_absent_key [OF assms(1,2) shipping_only_for_purchase [OF this]]
    have "map_of kvs ''shipping_address'' = None" .
    from mp [OF a2 this]
    show "shipping_city r = JNull \<and> shipping_state r = JNull \<and> shipping_zip r = JNull" .
  qed
  show ?thesis by (rule conjI [OF 1 conjI [OF 2 3]])
qed

theorem row_of_data_model_record_witness:
  "follows_schema small_purchase \<and>
   map_of small_purchase ''event_type'' = Some (JStr ''purchase'') \<and>
   event_values ref_env (JObj small_purchase) = Inr small_purchase_row \<and>
   rating small_purchase_row = JNull \<and>
   shipping_city small_purchase_row = JStr ''Oslo'' \<and>
   shipping_state small_purchase_row = JNull \<and>
   shipping_zip small_purchase_row = JStr ''0150'' \<and>
   follows_schema small_page_view \<and>
   map_of small_page_view ''event_type'' = Some (JStr ''page_view'') \<and>
   event_values ref_env (JObj small_page_view) = Inr small_page_view_row \<and>
   order_id small_page_view_row = JNull \<and>
   shipping_city small_page_view_row = JNull \<and>
   shipping_state small_page_view_row = JNull \<and>
   shipping_zip small_page_view_row = JNull"
proof -
  have s1: "follows_schema small_purchase"
    by (simp add: follows_schema_def small_purchase_def variant_fields_def)
  have t1: "map_of small_purchase ''event_type'' = Some (JStr ''purchase'')"
    by (simp add: small_purchase_def)
  have m1: "map_of small_purchase ''shipping_address''
      = Some (JObj [(''city'', JStr ''Oslo''), (''zip'', JStr ''0150'')])"
    by (simp add: small_purchase_def)
  have n1: "''rating'' \<notin> set (variant_fields ''purchase'')" by (simp add: variant_fields_def)
  have c1: "(''rating'', rating) \<in> set flat_columns" by (simp add: flat_columns_def)
  note p = row_of_data_model_record [OF s1 t1 small_purchase_values]
  from bspec [OF conjunct1 [OF p] c1] n1
  have r1: "rating small_purchase_row = JNull" by simp
  from mp [OF conjunct1 [OF conjunct2 [OF p]] refl] obtain sh where
    sh: "map_of small_purchase ''shipping_address'' = Some (JObj sh)"
      "shipping_city small_purchase_row = dict_get sh ''city''"
      "shipping_state small_purchase_row = dict_get sh ''state''"
      "shipping_zip small_purchase_row = dict_get sh ''zip''"
    by (elim exE conjE) (rule that; assumption)
  from sh(1) m1 have "sh = [(''city'', JStr ''Oslo''), (''zip'', JStr ''0150'')]" by simp
  with sh(2-4) have r2: "shipping_city small_purchase_row = JStr ''Oslo''"
    "shipping_state small_purchase_row = JNull"
    "shipping_zip small_purchase_row = JStr ''0150''"
    by (simp_all add: dict_get_def dict_get_default_def)
  have s2: "follows_schema small_page_view"
    by (simp add: follows_schema_def small_page_view_def variant_fields_def)
  have t2: "map_of small_page_view ''event_type'' = Some (JStr ''page_view'')"
    by (simp add: small_page_view_def)
  have n2: "''order_id'' \<notin> set (variant_fields ''page_view'')" by (simp add: variant_fields_def)
  have c2: "(''order_id'', order_id) \<in> set flat_columns" by (simp add: flat_columns_def)
  have d2: "''page_view'' \<noteq> ''purchase''" by simp
  note q = row_of_data_model_record [OF s2 t2 small_page_view_values]
  from bspec [OF conjunct1 [OF q] c2] n2
  have r3: "order_id small_page_view_row = JNull" by simp
  from mp [OF conjunct2 [OF conjunct2 [OF q]] d2]
  have r4: "shipping_city small_page_view_row = JNull \<and> shipping_state small_page_view_row = JNull
      \<and> shipping_zip small_page_view_row = JNull" .
  show ?thesis
    using s1 t1 small_purchase_values r1 r2 s2 t2 small_page_view_values r3 r4 by simp
qed

section \<open>The file loop of \<^verbatim>\<open>load_all_events\<close>\<close>

lemma opened_paths_append: "opened_paths (xs @ ys) = opened_paths xs @ opened_paths ys"
  by (induction xs rule: opened_paths.induct) simp_all

lemma reported_successes_append:
  "reported_successes (xs @ ys) = reported_successes xs @ reported_successes ys"
  by (induction xs rule: reported_successes.induct) simp_all

lemma reported_failures_append:
  "reported_failures (xs @ ys) = reported_failures xs @ reported_failures ys"
  by (induction xs rule: reported_failures.induct) simp_all

lemma record_action_head:
  assumes "is_record_action a"
  shows "opened_paths (a # as) = opened_paths as"
    "reported_successes (a # as) = reported_successes as"
    "reported_failures (a # as) = reported_failures as"
    "a \<noteq> Connect" "a \<noteq> Commit"
  using assms by (cases a rule: is_record_action.cases; simp)+

lemma record_actions_silent:
  assumes "list_all is_record_action acts"
  shows "opened_paths acts = []" "reported_successes acts = []" "reported_failures acts = []"
    "Connect \<notin> set acts" "count_list acts Commit = 0"
  using assms
proof (induction acts)
  case Nil
  {
    case 1 show ?case by simp
  next
    case 2 show ?case by simp
  next
    case 3 show ?case by simp
  next
    case 4 show ?case by simp
  next
    case 5 show ?case by simp
  }
next
  case (Cons a acts)
  {
    case 1 with Cons.IH(1) show ?case by (simp add: record_action_head)
  next
    case 2 with Cons.IH(2) show ?case by (simp add: record_action_head)
  next
    case 3 with Cons.IH(3) show ?case by (simp add: record_action_head)
  next
    case 4 with Cons.IH(4) record_action_head(4) [of a] show ?case by auto
  next
    case 5 with Cons.IH(5) record_action_head(5) [of a] show ?case by auto
  }
qed

lemma load_json_file_ok:
  assumes "load_error w p = None"
  shows "\<exists>s e w' acts.
     load_json_file E p w = (Inr (s, e), w') \<and> trace w' = trace w @ acts \<and>
     opened_paths acts = [p] \<and>
     s = length (executed_rows acts) \<and> e = length (failure_reports acts) \<and>
     reported_successes acts = [s] \<and> sum_list (reported_failures acts) = e \<and>
     count_list acts Commit = 1 \<and> Close \<notin> set acts \<and> Connect \<notin> set acts \<and>
     fs w' = fs w \<and> conn_open w' = conn_open w"
proof -
  from assms obtain j items where
    f: "map_of (fs w) p = Some (File (Doc j))" and it: "py_items j = Inr items"
    by (auto simp: load_error_def split: option.splits node.splits content.splits sum.splits)
  obtain s e w' acts tail where
    a: "load_json_file E p w = (Inr (s, e), w')"
      "trace w' = trace w @ [Print (MsgLoading p), OpenFile p, Print (MsgFound (length items))]
                  @ acts @ [Commit] @ tail"
      "Close \<notin> set acts" "list_all is_record_action acts"
      "tail = Print (MsgComplete s) # (if e > 0 then [Print (MsgWarnFailed e)] else [])"
      "s = length (executed_rows acts)" "e = length (failure_reports acts)"
      "fs w' = fs w" "conn_open w' = conn_open w"
    using load_json_file_effect [OF f it, of E] by (elim exE conjE) (rule that; assumption)
  note q = record_actions_silent [OF a(4)]
  define all where "all = [Print (MsgLoading p), OpenFile p, Print (MsgFound (length items))]
                  @ acts @ [Commit] @ tail"
  have "trace w' = trace w @ all" using a(2) by (simp add: all_def)
  moreover have "opened_paths all = [p]" "reported_successes all = [s]"
    "sum_list (reported_failures all) = e" "count_list all Commit = 1"
    "Close \<notin> set all" "Connect \<notin> set all"
    "executed_rows all = executed_rows acts" "failure_reports all = failure_reports acts"
    using q a(3) a(5)
    by (simp_all add: all_def opened_paths_append reported_successes_append
        reported_failures_append executed_rows_append failure_reports_append)
  ultimately show ?thesis
    apply (rule_tac x=s in exI, rule_tac x=e in exI, rule_tac x=w' in exI, rule_tac x=all in exI)
    using a(1) a(6-9) by simp
qed

lemma load_json_file_raises:
  assumes "load_error w p = Some x"
  shows "\<exists>w' acts.
     load_json_file E p w = (Inl x, w') \<and> trace w' = trace w @ acts \<and>
     opened_paths acts = (case map_of (fs w) p of Some (File c) \<Rightarrow> [p] | _ \<Rightarrow> []) \<and>
     executed_rows acts = [] \<and> count_list acts Commit = 0 \<and>
     Close \<notin> set acts \<and> Connect \<notin> set acts \<and>
     fs w' = fs w \<and> conn_open w' = conn_open w \<and>
     db_pending w' = db_pending w \<and> db_committed w' = db_committed w"
proof -
  consider (missing) "map_of (fs w) p = None"
    | (dir) names where "map_of (fs w) p = Some (Dir names)"
    | (garbage) "map_of (fs w) p = Some (File Garbage)"
    | (doc) j where "map_of (fs w) p = Some (File (Doc j))"
  proof (cases "map_of (fs w) p")
    case None
    then show ?thesis by (rule missing)
  next
    case (Some nd)
    show ?thesis
    proof (cases nd)
      case (Dir names)
      with Some show ?thesis by (simp add: dir)
    next
      case (File c)
      show ?thesis
      proof (cases c)
        case Garbage
        with Some File show ?thesis by (simp add: garbage)
      next
        case (Doc j)
        with Some File show ?thesis by (simp add: doc)
      qed
    qed
  qed
  then show ?thesis
  proof cases
    case missing
    with assms show ?thesis
      apply (rule_tac x="print (MsgLoading p) w" in exI, rule_tac x="[Print (MsgLoading p)]" in exI)
      by (simp add: load_error_def load_json_file_def read_json_def print_def emit_def)
  next
    case dir
    with assms show ?thesis
      apply (rule_tac x="print (MsgLoading p) w" in exI, rule_tac x="[Print (MsgLoading p)]" in exI)
      by (simp add: load_error_def load_json_file_def read_json_def print_def emit_def)
  next
    case garbage
    with assms show ?thesis
      apply (rule_tac x="emit (OpenFile p) (print (MsgLoading p) w)" in exI, rule_tac x="[Print (MsgLoading p), OpenFile p]" in exI)
      by (simp add: load_error_def load_json_file_def read_json_def print_def emit_def)
  next
    case doc
    with assms have "py_items j = Inl x"
      by (simp add: load_error_def split: sum.splits)
    with doc show ?thesis
      apply (rule_tac x="emit (OpenFile p) (print (MsgLoading p) w)" in exI, rule_tac x="[Print (MsgLoading p), OpenFile p]" in exI)
      by (simp add: load_json_file_def read_json_def print_def emit_def)
  qed
qed

lemma load_files_ok:
  assumes "\<forall>g \<in> set files. load_error w (path_join dir g) = None"
  shows "\<exists>S F w' acts.
     load_files E dir files ts te w = (Inr (ts + S, te + F), w') \<and>
     trace w' = trace w @ acts \<and>
     opened_paths acts = map (path_join dir) files \<and>
     S = length (executed_rows acts) \<and> F = length (failure_reports acts) \<and>
     length (reported_successes acts) = length files \<and>
     sum_list (reported_successes acts) = S \<and> sum_list (reported_failures acts) = F \<and>
     count_list acts Commit = length files \<and> Close \<notin> set acts \<and> Connect \<notin> set acts \<and>
     fs w' = fs w \<and> conn_open w' = conn_open w"
  using assms
proof (induction files arbitrary: ts te w)
  case Nil
  show ?case
    by (rule exI [of _ 0], rule exI [of _ 0], rule exI [of _ w], rule exI [of _ "[]"]) simp
next
  case (Cons f files)
  from Cons.prems have "load_error w (path_join dir f) = None" by simp
  from load_json_file_ok [OF this, of E] obtain s e w1 acts1 where
    a: "load_json_file E (path_join dir f) w = (Inr (s, e), w1)" "trace w1 = trace w @ acts1"
     "opened_paths acts1 = [path_join dir f]"
     "s = length (executed_rows acts1)" "e = length (failure_reports acts1)"
     "reported_successes acts1 = [s]" "sum_list (reported_failures acts1) = e"
     "count_list acts1 Commit = 1" "Close \<notin> set acts1" "Connect \<notin> set acts1"
     "fs w1 = fs w" "conn_open w1 = conn_open w"
    by (elim exE conjE) (rule that; assumption)
  from Cons.prems a(11) have "\<forall>g \<in> set files. load_error w1 (path_join dir g) = None"
    by (simp add: load_error_def)
  from Cons.IH [OF this, of "ts + s" "te + e"] obtain S F w' acts2 where
    b: "load_files E dir files (ts + s) (te + e) w1 = (Inr (ts + s + S, te + e + F), w')"
     "trace w' = trace w1 @ acts2"
     "opened_paths acts2 = map (path_join dir) files"
     "S = length (executed_rows acts2)" "F = length (failure_reports acts2)"
     "length (reported_successes acts2) = length files"
     "sum_list (reported_successes acts2) = S" "sum_list (reported_failures acts2) = F"
     "count_list acts2 Commit = length files" "Close \<notin> set acts2" "Connect \<notin> set acts2"
     "fs w' = fs w1" "conn_open w' = conn_open w1"
    by (elim exE conjE) (rule that; assumption)
  show ?case
    apply (rule_tac x="s + S" in exI, rule_tac x="e + F" in exI, rule_tac x=w' in exI, rule_tac x="acts1 @ acts2" in exI)
    using a b
    by (simp add: opened_paths_append reported_successes_append reported_failures_append
        executed_rows_append failure_reports_append add.assoc)
qed

lemma load_files_raises:
  assumes "\<forall>g \<in> set before. load_error w (path_join dir g) = None"
    and "load_error w (path_join dir f) = Some x"
  shows "\<exists>w' acts.
     load_files E dir (before @ f # after) ts te w = (Inl x, w') \<and>
     trace w' = trace w @ acts \<and>
     opened_paths acts = map (path_join dir) before @
        (case map_of (fs w) (path_join dir f) of Some (File c) \<Rightarrow> [path_join dir f] | _ \<Rightarrow> []) \<and>
     count_list acts Commit = length before \<and> Close \<notin> set acts \<and> Connect \<notin> set acts \<and>
     fs w' = fs w \<and> conn_open w' = conn_open w"
  using assms
proof (induction before arbitrary: ts te w)
  case Nil
  from load_json_file_raises [OF Nil.prems(2), of E] obtain w' acts where
    a: "load_json_file E (path_join dir f) w = (Inl x, w')" "trace w' = trace w @ acts"
     "opened_paths acts = (case map_of (fs w) (path_join dir f) of Some (File c) \<Rightarrow> [path_join dir f] | _ \<Rightarrow> [])"
     "count_list acts Commit = 0" "Close \<notin> set acts" "Connect \<notin> set acts"
     "fs w' = fs w" "conn_open w' = conn_open w"
    by (elim exE conjE) (rule that; assumption)
  show ?case
    apply (rule_tac x=w' in exI, rule_tac x=acts in exI)
    using a by simp
next
  case (Cons g before)
  from Cons.prems have "load_error w (path_join dir g) = None" by simp
  from load_json_file_ok [OF this, of E] obtain s e w1 acts1 where
    a: "load_json_file E (path_join dir g) w = (Inr (s, e), w1)" "trace w1 = trace w @ acts1"
     "opened_paths acts1 = [path_join dir g]"
     "count_list acts1 Commit = 1" "Close \<notin> set acts1" "Connect \<notin> set acts1"
     "fs w1 = fs w" "conn_open w1 = conn_open w"
    by (elim exE conjE) (rule that; assumption)
  from Cons.prems a(7) have p: "\<forall>h \<in> set before. load_error w1 (path_join dir h) = None"
    "load_error w1 (path_join dir f) = Some x"
    by (simp_all add: load_error_def)
  from Cons.IH [OF p, of "ts + s" "te + e"] obtain w' acts2 where
    b: "load_files E dir (before @ f # after) (ts + s) (te + e) w1 = (Inl x, w')"
     "trace w' = trace w1 @ acts2"
     "opened_paths acts2 = map (path_join dir) before @
        (case map_of (fs w1) (path_join dir f) of Some (File c) \<Rightarrow> [path_join dir f] | _ \<Rightarrow> [])"
     "count_list acts2 Commit = length before" "Close \<notin> set acts2" "Connect \<notin> set acts2"
     "fs w' = fs w1" "conn_open w' = conn_open w1"
    by (elim exE conjE) (rule that; assumption)
  show ?case
    apply (rule_tac x=w' in exI, rule_tac x="acts1 @ acts2" in exI)
    using a b by (simp add: opened_paths_append)
qed

section \<open>\<^verbatim>\<open>load_all_events\<close>\<close>

lemmas all_defs = load_all_events_def get_db_connection_def listdir_def prints_def close_def
  endswith_def path_join_def ok_page_view_def bad_timestamp_def no_timestamp_def
  empty_world_def ref_defs run_defs

lemma load_all_events_connected:
  assumes "connectable E" and "map_of (fs w) dir = Some (Dir names)"
    and "filter (\<lambda>f. endswith f ''.json'') names \<noteq> []"
  shows "load_all_events E dir w =
     (case load_files E dir (filter (\<lambda>f. endswith f ''.json'') names) 0 0
        (w\<lparr>conn_open := True,
            trace := trace w @ [Print MsgRule, Print MsgTitle, Print MsgRule, Connect,
              Print MsgConnected, Listdir dir,
              Print (MsgFoundFiles (length (filter (\<lambda>f. endswith f ''.json'') names)))]\<rparr>) of
        (Inl x, w3) \<Rightarrow> (Inl x, w3)
      | (Inr (total_success, total_errors), w3) \<Rightarrow>
          (Inr (),
           prints [MsgRule, MsgSummaryHead, MsgTotalLoaded total_success,
                   MsgTotalErrors total_errors,
                   MsgFilesProcessed (length (filter (\<lambda>f. endswith f ''.json'') names)),
                   MsgRule, MsgNextStep] (close w3)))"
  using assms
  by (simp add: load_all_events_def get_db_connection_def listdir_def prints_def print_def
      emit_def Let_def)

text \<open>
  C2, as stated, fails: when the store cannot be reached, \<^verbatim>\<open>get_db_connection\<close> catches the
  exception and returns \<^verbatim>\<open>None\<close>, and \<^verbatim>\<open>load_all_events\<close> returns normally: no error reaches
  its caller.
\<close>

theorem unreachable_store_raises_nothing:
  "fst (load_all_events unreachable_env ''data/events'' unsorted_world) = Inr ()"
  by (simp add: unreachable_env_def unsorted_world_def all_defs)

text \<open>
  C2, amended. If the store connection cannot be established, \<^verbatim>\<open>load_all_events\<close> stops
  before touching any file (it lists no directory and opens no file: the trace gains the
  banner and the connection error message only) and returns normally to its caller.
\<close>

theorem no_connection_returns_quietly:
  assumes "\<not> connectable E"
  shows "load_all_events E events_dir w =
           (Inr (), w\<lparr>trace := trace w @ [Print MsgRule, Print MsgTitle, Print MsgRule,
                                           Print MsgConnectError]\<rparr>)"
  using assms
  by (simp add: load_all_events_def get_db_connection_def prints_def print_def emit_def)

theorem no_connection_returns_quietly_witness:
  "\<not> connectable unreachable_env \<and>
   load_all_events unreachable_env ''data/events'' unsorted_world =
     (Inr (), unsorted_world\<lparr>trace := trace unsorted_world @
        [Print MsgRule, Print MsgTitle, Print MsgRule, Print MsgConnectError]\<rparr>)"
proof -
  have h: "\<not> connectable unreachable_env" by (simp add: unreachable_env_def ref_env_def)
  show ?thesis
    using h no_connection_returns_quietly [OF h, of "''data/events''" unsorted_world] by simp
qed

text \<open>
  C3, as stated, fails: the call of \<^verbatim>\<open>load_json_file\<close> in \<^verbatim>\<open>load_all_events\<close> is not guarded,
  so the error of a file that is not JSON leaves \<^verbatim>\<open>load_all_events\<close>; the file listed
  after it is never opened.
\<close>

theorem later_files_not_attempted:
  "fst (load_all_events ref_env ''data/events'' three_files_world) = Inl JSONDecodeError \<and>
   opened_paths (trace (snd (load_all_events ref_env ''data/events'' three_files_world)))
     = [''data/events/a.json'', ''data/events/broken.json'']"
  by (simp add: three_files_world_def all_defs)

text \<open>
  C4. The claim asks for the connection to be released on every exit path. On the path
  where a file raises, \<^verbatim>\<open>load_all_events\<close> is left with the connection open and never
  closed: here on a directory whose only file is not JSON.
\<close>

theorem connection_left_open_after_malformed_file:
  "fst (load_all_events ref_env ''data/events'' only_garbage_world) = Inl JSONDecodeError \<and>
   conn_open (snd (load_all_events ref_env ''data/events'' only_garbage_world)) \<and>
   Close \<notin> set (trace (snd (load_all_events ref_env ''data/events'' only_garbage_world)))"
  by (simp add: only_garbage_world_def all_defs)

text \<open>
  C8, as stated, fails: the files are taken in the order \<^verbatim>\<open>os.listdir\<close> returns their
  names, which nothing sorts. With the listing \<^verbatim>\<open>b.json, notes.txt, a.json\<close> the loader opens
  \<^verbatim>\<open>b.json\<close> before \<^verbatim>\<open>a.json\<close>.
\<close>

theorem files_loaded_in_listing_order:
  "opened_paths (trace (snd (load_all_events ref_env ''data/events'' unsorted_world)))
     = [''data/events/b.json'', ''data/events/a.json'']"
  by (simp add: unsorted_world_def all_defs)

text \<open>
  C3, amended. For every directory of batch files, if \<^verbatim>\<open>load_json_file\<close> raises on one of
  the files (the file is missing or a directory, its text is not JSON, or the document is
  a value without a length), the error leaves \<^verbatim>\<open>load_all_events\<close> as well: the files
  listed before it have been loaded and committed, and no file listed after it is opened.
\<close>

theorem malformed_file_stops_the_run:
  assumes "connectable E" and "map_of (fs w) dir = Some (Dir names)"
    and "filter (\<lambda>f. endswith f ''.json'') names = before @ f # after"
    and "\<forall>g \<in> set before. load_error w (path_join dir g) = None"
    and "load_error w (path_join dir f) = Some x"
  shows "fst (load_json_file E (path_join dir f) w) = Inl x \<and>
         (\<exists>w' acts.
            load_all_events E dir w = (Inl x, w') \<and> trace w' = trace w @ acts \<and>
            opened_paths acts = map (path_join dir) before @
              (case map_of (fs w) (path_join dir f) of
                 Some (File c) \<Rightarrow> [path_join dir f] | _ \<Rightarrow> []) \<and>
            count_list acts Commit = length before)"
proof -
  let ?files = "filter (\<lambda>f. endswith f ''.json'') names"
  let ?pre = "[Print MsgRule, Print MsgTitle, Print MsgRule, Connect,
              Print MsgConnected, Listdir dir, Print (MsgFoundFiles (length ?files))]"
  let ?W = "w\<lparr>conn_open := True, trace := trace w @ ?pre\<rparr>"
  from load_json_file_raises [OF assms(5), of E]
  have one: "fst (load_json_file E (path_join dir f) w) = Inl x" by auto
  have ne: "?files \<noteq> []" using assms(3) by simp
  have p: "\<forall>g \<in> set before. load_error ?W (path_join dir g) = None"
    "load_error ?W (path_join dir f) = Some x"
    using assms(4,5) by (simp_all add: load_error_def)
  from load_files_raises [OF p, of E after 0 0] obtain w' acts where
    a: "load_files E dir (before @ f # after) 0 0 ?W = (Inl x, w')"
      "trace w' = trace ?W @ acts"
      "opened_paths acts = map (path_join dir) before @
        (case map_of (fs ?W) (path_join dir f) of Some (File c) \<Rightarrow> [path_join dir f] | _ \<Rightarrow> [])"
      "count_list acts Commit = length before"
    by (elim exE conjE) (rule that; assumption)
  have r: "load_all_events E dir w = (Inl x, w')"
    using load_all_events_connected [OF assms(1,2) ne] a(1) assms(3) by simp
  have "trace w' = trace w @ (?pre @ acts)" using a(2) by simp
  moreover have "opened_paths (?pre @ acts) = map (path_join dir) before @
              (case map_of (fs w) (path_join dir f) of
                 Some (File c) \<Rightarrow> [path_join dir f] | _ \<Rightarrow> [])"
    using a(3) by (simp add: opened_paths_append)
  moreover have "count_list (?pre @ acts) Commit = length before"
    using a(4) by simp
  ultimately show ?thesis using one r by blast
qed

theorem malformed_file_stops_the_run_witness:
  "connectable ref_env \<and>
   map_of (fs three_files_world) ''data/events''
     = Some (Dir [''a.json'', ''broken.json'', ''c.json'']) \<and>
   filter (\<lambda>f. endswith f ''.json'') [''a.json'', ''broken.json'', ''c.json'']
     = [''a.json''] @ ''broken.json'' # [''c.json''] \<and>
   load_error three_files_world (path_join ''data/events'' ''a.json'') = None \<and>
   load_error three_files_world (path_join ''data/events'' ''broken.json'') = Some JSONDecodeError \<and>
   fst (load_json_file ref_env (path_join ''data/events'' ''broken.json'') three_files_world)
     = Inl JSONDecodeError \<and>
   (\<exists>w' acts.
      load_all_events ref_env ''data/events'' three_files_world = (Inl JSONDecodeError, w') \<and>
      trace w' = trace three_files_world @ acts \<and>
      opened_paths acts = map (path_join ''data/events'') [''a.json''] @
        (case map_of (fs three_files_world) (path_join ''data/events'' ''broken.json'') of
           Some (File c) \<Rightarrow> [path_join ''data/events'' ''broken.json''] | _ \<Rightarrow> []) \<and>
      count_list acts Commit = length [''a.json''])"
proof -
  have h1: "connectable ref_env" by (simp add: ref_env_def)
  have h2: "map_of (fs three_files_world) ''data/events''
     = Some (Dir [''a.json'', ''broken.json'', ''c.json''])"
    by (simp add: three_files_world_def empty_world_def)
  have h3: "filter (\<lambda>f. endswith f ''.json'') [''a.json'', ''broken.json'', ''c.json'']
     = [''a.json''] @ ''broken.json'' # [''c.json'']"
    by (simp add: endswith_def)
  have h4: "\<forall>g \<in> set [''a.json'']. load_error three_files_world (path_join ''data/events'' g) = None"
    by (simp add: load_error_def three_files_world_def empty_world_def path_join_def endswith_def)
  have h5: "load_error three_files_world (path_join ''data/events'' ''broken.json'') = Some JSONDecodeError"
    by (simp add: load_error_def three_files_world_def empty_world_def path_join_def endswith_def)
  have h4': "load_error three_files_world (path_join ''data/events'' ''a.json'') = None"
    using h4 by simp
  from malformed_file_stops_the_run [OF h1 h2 h3 h4 h5] h1 h2 h3 h4' h5
  show ?thesis by blast
qed

text \<open>
  C8, amended. With the store reachable, at least one name ending in \<^verbatim>\<open>.json\<close> in the
  directory and every such file loading, \<^verbatim>\<open>load_all_events\<close> applies \<^verbatim>\<open>load_json_file\<close> to
  each of these names, joined to the directory (no recursion), in the order
  \<^verbatim>\<open>os.listdir\<close> returns them; each file prints its own counts, and the summary printed
  after closing the connection gives the sums of the success and failure tallies over the
  files, which are the numbers of rows executed and of failures reported.
\<close>

theorem load_all_sums_in_listing_order:
  assumes "connectable E" and "map_of (fs w) dir = Some (Dir names)"
    and "json_files = filter (\<lambda>f. endswith f ''.json'') names"
    and "json_files \<noteq> []"
    and "\<forall>g \<in> set json_files. load_error w (path_join dir g) = None"
  shows "\<exists>w' acts S F.
           load_all_events E dir w = (Inr (), w') \<and>
           trace w' = trace w @
             [Print MsgRule, Print MsgTitle, Print MsgRule, Connect, Print MsgConnected,
              Listdir dir, Print (MsgFoundFiles (length json_files))] @ acts @
             [Close, Print MsgRule, Print MsgSummaryHead, Print (MsgTotalLoaded S),
              Print (MsgTotalErrors F), Print (MsgFilesProcessed (length json_files)),
              Print MsgRule, Print MsgNextStep] \<and>
           opened_paths acts = map (path_join dir) json_files \<and>
           length (reported_successes acts) = length json_files \<and>
           S = sum_list (reported_successes acts) \<and> F = sum_list (reported_failures acts) \<and>
           S = length (executed_rows acts) \<and> F = length (failure_reports acts) \<and>
           Close \<notin> set acts \<and> \<not> conn_open w'"
proof -
  let ?pre = "[Print MsgRule, Print MsgTitle, Print MsgRule, Connect,
              Print MsgConnected, Listdir dir, Print (MsgFoundFiles (length json_files))]"
  let ?W = "w\<lparr>conn_open := True, trace := trace w @ ?pre\<rparr>"
  have p: "\<forall>g \<in> set json_files. load_error ?W (path_join dir g) = None"
    using assms(5) by (simp add: load_error_def)
  from load_files_ok [OF p, of E 0 0] obtain S F w3 acts where
    a: "load_files E dir json_files 0 0 ?W = (Inr (0 + S, 0 + F), w3)"
      "trace w3 = trace ?W @ acts"
      "opened_paths acts = map (path_join dir) json_files"
      "S = length (executed_rows acts)" "F = length (failure_reports acts)"
      "length (reported_successes acts) = length json_files"
      "sum_list (reported_successes acts) = S" "sum_list (reported_failures acts) = F"
      "Close \<notin> set acts"
    by (elim exE conjE) (rule that; assumption)
  define w' where "w' = prints [MsgRule, MsgSummaryHead, MsgTotalLoaded S, MsgTotalErrors F,
       MsgFilesProcessed (length json_files), MsgRule, MsgNextStep] (close w3)"
  have ne: "filter (\<lambda>f. endswith f ''.json'') names \<noteq> []" using assms(3,4) by simp
  have r: "load_all_events E dir w = (Inr (), w')"
    using load_all_events_connected [OF assms(1,2) ne] a(1) assms(3) by (simp add: w'_def)
  have t: "trace w' = trace w @ ?pre @ acts @
             [Close, Print MsgRule, Print MsgSummaryHead, Print (MsgTotalLoaded S),
              Print (MsgTotalErrors F), Print (MsgFilesProcessed (length json_files)),
              Print MsgRule, Print MsgNextStep]"
    "\<not> conn_open w'"
    using a(2) by (simp_all add: w'_def prints_def print_def emit_def close_def)
  show ?thesis
    apply (rule exI [of _ w'], rule exI [of _ acts], rule exI [of _ S], rule exI [of _ F])
    using r t a(3-9) by simp
qed

theorem load_all_sums_in_listing_order_witness:
  "connectable ref_env \<and>
   map_of (fs unsorted_world) ''data/events'' = Some (Dir [''b.json'', ''notes.txt'', ''a.json'']) \<and>
   [''b.json'', ''a.json''] = filter (\<lambda>f. endswith f ''.json'') [''b.json'', ''notes.txt'', ''a.json''] \<and>
   [''b.json'', ''a.json''] \<noteq> [] \<and>
   load_error unsorted_world (path_join ''data/events'' ''b.json'') = None \<and>
   load_error unsorted_world (path_join ''data/events'' ''a.json'') = None \<and>
   (\<exists>w' acts S F.
      load_all_events ref_env ''data/events'' unsorted_world = (Inr (), w') \<and>
      trace w' = trace unsorted_world @
        [Print MsgRule, Print MsgTitle, Print MsgRule, Connect, Print MsgConnected,
         Listdir ''data/events'', Print (MsgFoundFiles (length [''b.json'', ''a.json'']))] @ acts @
        [Close, Print MsgRule, Print MsgSummaryHead, Print (MsgTotalLoaded S),
         Print (MsgTotalErrors F), Print (MsgFilesProcessed (length [''b.json'', ''a.json''])),
         Print MsgRule, Print MsgNextStep] \<and>
      opened_paths acts = map (path_join ''data/events'') [''b.json'', ''a.json''] \<and>
      length (reported_successes acts) = length [''b.json'', ''a.json''] \<and>
      S = sum_list (reported_successes acts) \<and> F = sum_list (reported_failures acts) \<and>
      S = length (executed_rows acts) \<and> F = length (failure_reports acts) \<and>
      Close \<notin> set acts \<and> \<not> conn_open w')"
proof -
  have h1: "connectable ref_env" by (simp add: ref_env_def)
  have h2: "map_of (fs unsorted_world) ''data/events''
      = Some (Dir [''b.json'', ''notes.txt'', ''a.json''])"
    by (simp add: unsorted_world_def empty_world_def)
  have h3: "[''b.json'', ''a.json'']
      = filter (\<lambda>f. endswith f ''.json'') [''b.json'', ''notes.txt'', ''a.json'']"
    by (simp add: endswith_def)
  have h4: "[''b.json'', ''a.json''] \<noteq> []" by simp
  have h5: "\<forall>g \<in> set [''b.json'', ''a.json''].
      load_error unsorted_world (path_join ''data/events'' g) = None"
    by (simp add: load_error_def unsorted_world_def empty_world_def path_join_def endswith_def)
  have h5': "load_error unsorted_world (path_join ''data/events'' ''b.json'') = None"
    "load_error unsorted_world (path_join ''data/events'' ''a.json'') = None"
    using h5 by simp_all
  from load_all_sums_in_listing_order [OF h1 h2 h3 h4 h5] h1 h2 h3 h4 h5'
  show ?thesis by blast
qed

section \<open>Saving a batch and loading it back\<close>









section \<open>The tallies of \<^verbatim>\<open>load_json_file\<close>, record by record\<close>

lemma attempted_rows_append: "attempted_rows (xs @ ys) = attempted_rows xs @ attempted_rows ys"
  by (induction xs rule: attempted_rows.induct) simp_all

lemma rejected_rows_append: "rejected_rows (xs @ ys) = rejected_rows xs @ rejected_rows ys"
  by (induction xs rule: rejected_rows.induct) simp_all

lemma loop_step_reports:
  "\<exists>s1 e1 w1 acts.
     (\<forall>evs. insert_loop E n idx (ev # evs) s e w = insert_loop E n (idx + 1) evs s1 e1 w1) \<and>
     trace w1 = trace w @ acts \<and>
     attempted_rows acts = mapped_rows E [ev] \<and>
     length (failure_reports acts) = mapping_failures E [ev] + length (rejected_rows acts) \<and>
     (\<forall>x. event_values E ev = Inl x \<longrightarrow> failure_reports acts = [(idx, x)]) \<and>
     (\<forall>jx \<in> set (failure_reports acts). fst jx = idx) \<and>
     ((\<forall>rows r. accepts E rows r) \<longrightarrow> rejected_rows acts = [])"
proof (cases "event_values E ev")
  case (Inl x)
  then have "\<forall>evs. insert_loop E n idx (ev # evs) s e w =
      insert_loop E n (idx + 1) evs s (e + 1) (print (MsgInsertFailed idx x) w)"
    by (simp add: insert_event_def)
  with Inl show ?thesis
    apply (rule_tac x=s in exI, rule_tac x="e + 1" in exI)
    apply (rule_tac x="print (MsgInsertFailed idx x) w" in exI)
    apply (rule_tac x="[Print (MsgInsertFailed idx x)]" in exI)
    by (simp add: print_def emit_def mapped_rows_def mapping_failures_def)
next
  case (Inr r)
  show ?thesis
  proof (cases "accepts E (db_committed w @ db_pending w) r")
    case True
    let ?w0 = "emit (Execute r) (w\<lparr>db_pending := db_pending w @ [r]\<rparr>)"
    let ?w1 = "if idx mod 50 = 0 then print (MsgProcessed idx n) ?w0 else ?w0"
    from Inr True have "\<forall>evs. insert_loop E n idx (ev # evs) s e w =
        insert_loop E n (idx + 1) evs (s + 1) e ?w1"
      by (simp add: insert_event_def cursor_execute_def)
    with Inr show ?thesis
      apply (rule_tac x="s + 1" in exI, rule_tac x=e in exI)
      apply (rule_tac x="?w1" in exI)
      apply (rule_tac x="if idx mod 50 = 0 then [Execute r, Print (MsgProcessed idx n)] else [Execute r]" in exI)
      by (simp add: print_def emit_def mapped_rows_def mapping_failures_def)
  next
    case False
    let ?w1 = "print (MsgInsertFailed idx StoreWriteError) (emit (Rejected r) w)"
    from Inr False have "\<forall>evs. insert_loop E n idx (ev # evs) s e w =
        insert_loop E n (idx + 1) evs s (e + 1) ?w1"
      by (simp add: insert_event_def cursor_execute_def)
    with Inr False show ?thesis
      apply (rule_tac x=s in exI, rule_tac x="e + 1" in exI)
      apply (rule_tac x="?w1" in exI)
      apply (rule_tac x="[Rejected r, Print (MsgInsertFailed idx StoreWriteError)]" in exI)
      by (auto simp add: print_def emit_def mapped_rows_def mapping_failures_def)
  qed
qed

lemma mapped_rows_Cons: "mapped_rows E (ev # evs) = mapped_rows E [ev] @ mapped_rows E evs"
  by (simp add: mapped_rows_def)

lemma mapping_failures_Cons:
  "mapping_failures E (ev # evs) = mapping_failures E [ev] + mapping_failures E evs"
  by (simp add: mapping_failures_def)

lemma insert_loop_reports:
  "\<exists>s' e' w' acts.
     insert_loop E n idx evs s e w = ((s', e'), w') \<and>
     trace w' = trace w @ acts \<and>
     attempted_rows acts = mapped_rows E evs \<and>
     length (failure_reports acts) = mapping_failures E evs + length (rejected_rows acts) \<and>
     (\<forall>i < length evs. \<forall>x. event_values E (evs ! i) = Inl x \<longrightarrow>
        (idx + i, x) \<in> set (failure_reports acts)) \<and>
     (\<forall>jx \<in> set (failure_reports acts). idx \<le> fst jx \<and> fst jx < idx + length evs) \<and>
     ((\<forall>rows r. accepts E rows r) \<longrightarrow> rejected_rows acts = [])"
proof (induction evs arbitrary: idx s e w)
  case Nil
  show ?case
    by (rule exI [of _ s], rule exI [of _ e], rule exI [of _ w], rule exI [of _ "[]"])
      (simp add: mapped_rows_def mapping_failures_def)
next
  case (Cons ev evs)
  from loop_step_reports [of E n idx ev s e w] obtain s1 e1 w1 acts1 where
    step: "\<forall>evs. insert_loop E n idx (ev # evs) s e w = insert_loop E n (idx + 1) evs s1 e1 w1"
    and a: "trace w1 = trace w @ acts1"
      "attempted_rows acts1 = mapped_rows E [ev]"
      "length (failure_reports acts1) = mapping_failures E [ev] + length (rejected_rows acts1)"
      "\<forall>x. event_values E ev = Inl x \<longrightarrow> failure_reports acts1 = [(idx, x)]"
      "\<forall>jx \<in> set (failure_reports acts1). fst jx = idx"
      "(\<forall>rows r. accepts E rows r) \<longrightarrow> rejected_rows acts1 = []"
    by (elim exE conjE) (rule that; assumption)
  from Cons.IH [of "idx + 1" s1 e1 w1] obtain s' e' w' acts2 where
    r: "insert_loop E n (idx + 1) evs s1 e1 w1 = ((s', e'), w')"
    and b: "trace w' = trace w1 @ acts2"
      "attempted_rows acts2 = mapped_rows E evs"
      "length (failure_reports acts2) = mapping_failures E evs + length (rejected_rows acts2)"
      "\<forall>i < length evs. \<forall>x. event_values E (evs ! i) = Inl x \<longrightarrow>
        (idx + 1 + i, x) \<in> set (failure_reports acts2)"
      "\<forall>jx \<in> set (failure_reports acts2). idx + 1 \<le> fst jx \<and> fst jx < idx + 1 + length evs"
      "(\<forall>rows r. accepts E rows r) \<longrightarrow> rejected_rows acts2 = []"
    by (elim exE conjE) (rule that; assumption)
  have 1: "insert_loop E n idx (ev # evs) s e w = ((s', e'), w')"
    using step r by simp
  have 2: "trace w' = trace w @ (acts1 @ acts2)" using a(1) b(1) by simp
  have 3: "attempted_rows (acts1 @ acts2) = mapped_rows E (ev # evs)"
    using a(2) b(2) by (simp add: attempted_rows_append mapped_rows_Cons [of E ev evs])
  have 4: "length (failure_reports (acts1 @ acts2))
      = mapping_failures E (ev # evs) + length (rejected_rows (acts1 @ acts2))"
    using a(3) b(3)
    by (simp add: failure_reports_append rejected_rows_append mapping_failures_Cons [of E ev evs])
  have 5: "\<forall>i < length (ev # evs). \<forall>x. event_values E ((ev # evs) ! i) = Inl x \<longrightarrow>
        (idx + i, x) \<in> set (failure_reports (acts1 @ acts2))"
  proof (intro allI impI)
    fix i x assume i: "i < length (ev # evs)" and x: "event_values E ((ev # evs) ! i) = Inl x"
    show "(idx + i, x) \<in> set (failure_reports (acts1 @ acts2))"
    proof (cases i)
      case 0
      with x a(4) have "failure_reports acts1 = [(idx, x)]" by simp
      with 0 show ?thesis by (simp add: failure_reports_append)
    next
      case (Suc k)
      with i x have "k < length evs" "event_values E (evs ! k) = Inl x" by simp_all
      with b(4) have "(idx + 1 + k, x) \<in> set (failure_reports acts2)" by blast
      with Suc show ?thesis by (simp add: failure_reports_append)
    qed
  qed
  have 6: "\<forall>jx \<in> set (failure_reports (acts1 @ acts2)).
      idx \<le> fst jx \<and> fst jx < idx + length (ev # evs)"
  proof
    fix jx assume "jx \<in> set (failure_reports (acts1 @ acts2))"
    then consider "jx \<in> set (failure_reports acts1)" | "jx \<in> set (failure_reports acts2)"
      by (auto simp: failure_reports_append)
    then show "idx \<le> fst jx \<and> fst jx < idx + length (ev # evs)"
    proof cases
      case 1
      with a(5) have "fst jx = idx" by blast
      then show ?thesis by simp
    next
      case 2
      with b(5) have "idx + 1 \<le> fst jx \<and> fst jx < idx + 1 + length evs" by blast
      then show ?thesis by simp
    qed
  qed
  have 7: "(\<forall>rows r. accepts E rows r) \<longrightarrow> rejected_rows (acts1 @ acts2) = []"
    using a(6) b(6) by (simp add: rejected_rows_append)
  show ?case
    apply (rule exI [of _ s'], rule exI [of _ e'], rule exI [of _ w'], rule exI [of _ "acts1 @ acts2"])
    by (rule conjI [OF 1 conjI [OF 2 conjI [OF 3 conjI [OF 4 conjI [OF 5 conjI [OF 6 7]]]]]])
qed

lemma attempted_rows_length:
  "length (attempted_rows acts) = length (executed_rows acts) + length (rejected_rows acts)"
  by (induction acts rule: attempted_rows.induct) simp_all

lemma load_json_file_reports:
  assumes f: "map_of (fs w) p = Some (File (Doc j))" and it: "py_items j = Inr items"
  shows "\<exists>s e w' w2 acts.
     load_json_file E p w = (Inr (s, e), w') \<and>
     insert_loop E (length items) 1 items 0 0
       (print (MsgFound (length items)) (emit (OpenFile p) (print (MsgLoading p) w)))
       = ((s, e), w2) \<and>
     trace w' = trace w @ acts \<and>
     s = length (executed_rows acts) \<and> e = length (failure_reports acts) \<and>
     s + e = length items \<and>
     attempted_rows acts = mapped_rows E items \<and>
     e = mapping_failures E items + length (rejected_rows acts) \<and>
     (\<forall>i < length items. \<forall>x. event_values E (items ! i) = Inl x \<longrightarrow>
        (i + 1, x) \<in> set (failure_reports acts)) \<and>
     (\<forall>jx \<in> set (failure_reports acts). 1 \<le> fst jx \<and> fst jx \<le> length items) \<and>
     ((\<forall>rows r. accepts E rows r) \<longrightarrow> rejected_rows acts = []) \<and>
     db_committed w' = db_committed w @ db_pending w @ executed_rows acts \<and>
     db_pending w' = []"
proof -
  define W where "W = print (MsgFound (length items)) (emit (OpenFile p) (print (MsgLoading p) w))"
  from insert_loop_effect [of E "length items" 1 items 0 0 W] obtain s e w2 acts where
    l: "insert_loop E (length items) 1 items 0 0 W = ((s, e), w2)"
    and a: "trace w2 = trace W @ acts"
      "db_pending w2 = db_pending W @ executed_rows acts"
      "s = 0 + length (executed_rows acts)" "e = 0 + length (failure_reports acts)"
      "length (executed_rows acts) + length (failure_reports acts) = length items"
      "db_committed w2 = db_committed W"
    by (elim exE conjE) (rule that; assumption)
  from insert_loop_reports [of E "length items" 1 items 0 0 W] obtain s' e' w2' acts' where
    l': "insert_loop E (length items) 1 items 0 0 W = ((s', e'), w2')"
    and b: "trace w2' = trace W @ acts'"
      "attempted_rows acts' = mapped_rows E items"
      "length (failure_reports acts') = mapping_failures E items + length (rejected_rows acts')"
      "\<forall>i < length items. \<forall>x. event_values E (items ! i) = Inl x \<longrightarrow>
        (1 + i, x) \<in> set (failure_reports acts')"
      "\<forall>jx \<in> set (failure_reports acts'). 1 \<le> fst jx \<and> fst jx < 1 + length items"
      "(\<forall>rows r. accepts E rows r) \<longrightarrow> rejected_rows acts' = []"
    by (elim exE conjE) (rule that; assumption)
  from l l' have "w2' = w2" by simp
  with a(1) b(1) have same: "acts' = acts" by simp
  define head where "head = [Print (MsgLoading p), OpenFile p, Print (MsgFound (length items))]"
  define tail where "tail = Print (MsgComplete s) # (if e > 0 then [Print (MsgWarnFailed e)] else [])"
  define w' where "w' = (if e > 0 then print (MsgWarnFailed e) (print (MsgComplete s) (commit w2))
      else print (MsgComplete s) (commit w2))"
  define all where "all = head @ acts @ [Commit] @ tail"
  have rj: "read_json p (print (MsgLoading p) w) = (Inr j, emit (OpenFile p) (print (MsgLoading p) w))"
    using f by (simp add: read_json_def print_def emit_def)
  have 1: "load_json_file E p w = (Inr (s, e), w')"
    using rj it l by (simp add: load_json_file_def W_def w'_def Let_def)
  have Wt: "trace W = trace w @ head" "db_pending W = db_pending w" "db_committed W = db_committed w"
    by (simp_all add: W_def head_def print_def emit_def)
  have 3: "trace w' = trace w @ all"
    using a(1) Wt(1) by (simp add: w'_def all_def tail_def print_def emit_def commit_def)
  have rd: "executed_rows all = executed_rows acts" "failure_reports all = failure_reports acts"
    "attempted_rows all = attempted_rows acts" "rejected_rows all = rejected_rows acts"
    by (simp_all add: all_def head_def tail_def executed_rows_append failure_reports_append
        attempted_rows_append rejected_rows_append)
  have 4: "s = length (executed_rows all)" "e = length (failure_reports all)"
    using a(3,4) rd by simp_all
  have 5: "s + e = length items" using a(3,4,5) by simp
  have 6: "attempted_rows all = mapped_rows E items" using b(2) same rd by simp
  have 7: "e = mapping_failures E items + length (rejected_rows all)"
    using b(3) same rd a(4) by simp
  have 8: "\<forall>i < length items. \<forall>x. event_values E (items ! i) = Inl x \<longrightarrow>
        (i + 1, x) \<in> set (failure_reports all)"
    using b(4) same rd by (simp add: add.commute)
  have 9: "\<forall>jx \<in> set (failure_reports all). 1 \<le> fst jx \<and> fst jx \<le> length items"
  proof
    fix jx assume "jx \<in> set (failure_reports all)"
    with rd same have "jx \<in> set (failure_reports acts')" by simp
    with b(5) have "1 \<le> fst jx \<and> fst jx < 1 + length items" by blast
    then show "1 \<le> fst jx \<and> fst jx \<le> length items" by simp
  qed
  have 10: "(\<forall>rows r. accepts E rows r) \<longrightarrow> rejected_rows all = []"
    using b(6) same rd by simp
  have 11: "db_committed w' = db_committed w @ db_pending w @ executed_rows all"
    "db_pending w' = []"
    using a(2,6) Wt rd by (simp_all add: w'_def print_def emit_def commit_def)
  show ?thesis
    apply (rule exI [of _ s], rule exI [of _ e], rule exI [of _ w'], rule exI [of _ w2],
        rule exI [of _ all])
    using 1 l 3 4 5 6 7 8 9 10 11 unfolding W_def
    by (intro conjI) assumption+
qed

lemma batch_values:
  "event_values ref_env bad_timestamp = Inl ValueError"
  "event_values ref_env no_timestamp = Inl (KeyError ''timestamp'')"
  "isl (event_values ref_env ok_page_view) = False"
  by (simp_all add: bad_timestamp_def no_timestamp_def ok_page_view_def event_values_def
      dict_get_def dict_get_default_def ref_defs)

text \<open>
  C5. For every well-formed batch file (a JSON array of records), \<^verbatim>\<open>load_json_file\<close> returns
  \<open>(success_count, error_count)\<close> with \<open>success_count + error_count\<close> equal to the number of
  records in the file, and no record is dropped: \<open>success_count\<close> is the number of rows the
  call executed, which are the rows it commits; \<open>error_count\<close> is the number of failures it
  reported, which is the number of records that could not be mapped plus the number of
  rows the store rejected; and the rows sent to the store are those of all the records
  that could be mapped. With a store that accepts every row the tallies are the number of
  records that map and the number that do not.
\<close>

theorem tallies_count_every_record:
  assumes "map_of (fs w) filepath = Some (File (Doc (JArr records)))"
  shows "\<exists>success_count error_count w' acts.
           load_json_file E filepath w = (Inr (success_count, error_count), w') \<and>
           success_count + error_count = length records \<and>
           trace w' = trace w @ acts \<and>
           success_count = length (executed_rows acts) \<and>
           error_count = length (failure_reports acts) \<and>
           error_count = mapping_failures E records + length (rejected_rows acts) \<and>
           attempted_rows acts = mapped_rows E records \<and>
           ((\<forall>rows r. accepts E rows r) \<longrightarrow>
              success_count = length (mapped_rows E records) \<and>
              error_count = mapping_failures E records) \<and>
           db_committed w' = db_committed w @ db_pending w @ executed_rows acts"
proof -
  have it: "py_items (JArr records) = Inr records" by simp
  from load_json_file_reports [OF assms it, of E] obtain s e w' acts where
    a: "load_json_file E filepath w = (Inr (s, e), w')"
      "trace w' = trace w @ acts"
      "s = length (executed_rows acts)" "e = length (failure_reports acts)"
      "s + e = length records"
      "attempted_rows acts = mapped_rows E records"
      "e = mapping_failures E records + length (rejected_rows acts)"
      "(\<forall>rows r. accepts E rows r) \<longrightarrow> rejected_rows acts = []"
      "db_committed w' = db_committed w @ db_pending w @ executed_rows acts"
    by (elim exE conjE) (rule that; assumption)
  have b: "(\<forall>rows r. accepts E rows r) \<longrightarrow>
              s = length (mapped_rows E records) \<and> e = mapping_failures E records"
  proof
    assume "\<forall>rows r. accepts E rows r"
    with a(8) have r: "rejected_rows acts = []" by simp
    from attempted_rows_length [of acts] r a(3) a(6)
    have "s = length (mapped_rows E records)" by simp
    moreover from a(7) r have "e = mapping_failures E records" by simp
    ultimately show "s = length (mapped_rows E records) \<and> e = mapping_failures E records" ..
  qed
  show ?thesis
    apply (rule exI [of _ s], rule exI [of _ e], rule exI [of _ w'], rule exI [of _ acts])
    using a(1) a(5) a(2) a(3) a(4) a(7) a(6) b a(9)
    by (intro conjI) assumption+
qed

theorem tallies_count_every_record_witness:
  "map_of (fs batch_world) ''data/events/a.json''
     = Some (File (Doc (JArr [ok_page_view, bad_timestamp, no_timestamp]))) \<and>
   accepts ref_env = accept_all \<and>
   length (mapped_rows ref_env [ok_page_view, bad_timestamp, no_timestamp]) = 1 \<and>
   mapping_failures ref_env [ok_page_view, bad_timestamp, no_timestamp] = 2 \<and>
   fst (load_json_file ref_env ''data/events/a.json'' batch_world) = Inr (1, 2)"
proof -
  have h: "map_of (fs batch_world) ''data/events/a.json''
     = Some (File (Doc (JArr [ok_page_view, bad_timestamp, no_timestamp])))"
    by (simp add: batch_world_def empty_world_def)
  have a: "accepts ref_env = accept_all" by (simp add: ref_env_def)
  then have all: "\<forall>rows r. accepts ref_env rows r" by (simp add: accept_all_def)
  have m: "length (mapped_rows ref_env [ok_page_view, bad_timestamp, no_timestamp]) = 1"
    using batch_values by (cases "event_values ref_env ok_page_view") (simp_all add: mapped_rows_def)
  have n: "mapping_failures ref_env [ok_page_view, bad_timestamp, no_timestamp] = 2"
    using batch_values by (simp add: mapping_failures_def)
  from tallies_count_every_record [OF h, of ref_env] obtain sc ec w' where
    r: "load_json_file ref_env ''data/events/a.json'' batch_world = (Inr (sc, ec), w')"
    and c: "(\<forall>rows r. accepts ref_env rows r) \<longrightarrow>
              sc = length (mapped_rows ref_env [ok_page_view, bad_timestamp, no_timestamp]) \<and>
              ec = mapping_failures ref_env [ok_page_view, bad_timestamp, no_timestamp]"
    by (elim exE conjE) (rule that; assumption)
  from c all m n have "sc = 1" "ec = 2" by simp_all
  with r have "fst (load_json_file ref_env ''data/events/a.json'' batch_world) = Inr (1, 2)"
    by simp
  with h a m n show ?thesis by simp
qed

text \<open>
  C1. For every batch file and every record in it, if mapping the record or inserting its row
  fails (\<^verbatim>\<open>insert_event\<close> raises \<open>x\<close> in the state the loop has reached), the loop goes on
  with the next record, the failure count one higher, the success count unchanged, and the
  diagnostic naming the index of the record and the error printed. The tallies
  \<^verbatim>\<open>load_json_file\<close> returns are those of this loop, run over all the records from index 1
  with both counts at zero: the call returns them whatever the records do (no such error
  leaves it), its failure count is the number of diagnostics it printed, each record that
  cannot be mapped has its diagnostic with its index and its error, and every record
  that can be mapped is sent to the store, failures before it or not.
\<close>

theorem failures_are_counted_reported_and_isolated:
  "(insert_loop E n idx before s e w = ((s1, e1), w1) \<and>
    insert_event E event w1 = (Inl x, w2) \<longrightarrow>
      insert_loop E n idx (before @ event # rest) s e w =
        insert_loop E n (idx + length before + 1) rest s1 (e1 + 1)
          (print (MsgInsertFailed (idx + length before) x) w2)) \<and>
   (map_of (fs w0) filepath = Some (File (Doc (JArr records))) \<longrightarrow>
      (\<exists>success_count error_count w' w3 acts.
         load_json_file E filepath w0 = (Inr (success_count, error_count), w') \<and>
         insert_loop E (length records) 1 records 0 0
           (print (MsgFound (length records))
              (emit (OpenFile filepath) (print (MsgLoading filepath) w0)))
           = ((success_count, error_count), w3) \<and>
         trace w' = trace w0 @ acts \<and>
         error_count = length (failure_reports acts) \<and>
         error_count = mapping_failures E records + length (rejected_rows acts) \<and>
         (\<forall>i < length records. \<forall>y. event_values E (records ! i) = Inl y \<longrightarrow>
            (i + 1, y) \<in> set (failure_reports acts)) \<and>
         (\<forall>jx \<in> set (failure_reports acts). 1 \<le> fst jx \<and> fst jx \<le> length records) \<and>
         attempted_rows acts = mapped_rows E records \<and>
         success_count + error_count = length records))"
proof (rule conjI)
  show "insert_loop E n idx before s e w = ((s1, e1), w1) \<and>
    insert_event E event w1 = (Inl x, w2) \<longrightarrow>
      insert_loop E n idx (before @ event # rest) s e w =
        insert_loop E n (idx + length before + 1) rest s1 (e1 + 1)
          (print (MsgInsertFailed (idx + length before) x) w2)"
    by (simp add: insert_loop_append)
next
  show "map_of (fs w0) filepath = Some (File (Doc (JArr records))) \<longrightarrow>
      (\<exists>success_count error_count w' w3 acts.
         load_json_file E filepath w0 = (Inr (success_count, error_count), w') \<and>
         insert_loop E (length records) 1 records 0 0
           (print (MsgFound (length records))
              (emit (OpenFile filepath) (print (MsgLoading filepath) w0)))
           = ((success_count, error_count), w3) \<and>
         trace w' = trace w0 @ acts \<and>
         error_count = length (failure_reports acts) \<and>
         error_count = mapping_failures E records + length (rejected_rows acts) \<and>
         (\<forall>i < length records. \<forall>y. event_values E (records ! i) = Inl y \<longrightarrow>
            (i + 1, y) \<in> set (failure_reports acts)) \<and>
         (\<forall>jx \<in> set (failure_reports acts). 1 \<le> fst jx \<and> fst jx \<le> length records) \<and>
         attempted_rows acts = mapped_rows E records \<and>
         success_count + error_count = length records)"
  proof
    assume f: "map_of (fs w0) filepath = Some (File (Doc (JArr records)))"
    have it: "py_items (JArr records) = Inr records" by simp
    from load_json_file_reports [OF f it, of E] obtain sc ec w' w3 acts where
      a: "load_json_file E filepath w0 = (Inr (sc, ec), w')"
        "insert_loop E (length records) 1 records 0 0
           (print (MsgFound (length records))
              (emit (OpenFile filepath) (print (MsgLoading filepath) w0))) = ((sc, ec), w3)"
        "trace w' = trace w0 @ acts"
        "ec = length (failure_reports acts)"
        "ec = mapping_failures E records + length (rejected_rows acts)"
        "\<forall>i < length records. \<forall>y. event_values E (records ! i) = Inl y \<longrightarrow>
            (i + 1, y) \<in> set (failure_reports acts)"
        "\<forall>jx \<in> set (failure_reports acts). 1 \<le> fst jx \<and> fst jx \<le> length records"
        "attempted_rows acts = mapped_rows E records"
        "sc + ec = length records"
      by (elim exE conjE) (rule that; assumption)
    show "\<exists>success_count error_count w' w3 acts.
         load_json_file E filepath w0 = (Inr (success_count, error_count), w') \<and>
         insert_loop E (length records) 1 records 0 0
           (print (MsgFound (length records))
              (emit (OpenFile filepath) (print (MsgLoading filepath) w0)))
           = ((success_count, error_count), w3) \<and>
         trace w' = trace w0 @ acts \<and>
         error_count = length (failure_reports acts) \<and>
         error_count = mapping_failures E records + length (rejected_rows acts) \<and>
         (\<forall>i < length records. \<forall>y. event_values E (records ! i) = Inl y \<longrightarrow>
            (i + 1, y) \<in> set (failure_reports acts)) \<and>
         (\<forall>jx \<in> set (failure_reports acts). 1 \<le> fst jx \<and> fst jx \<le> length records) \<and>
         attempted_rows acts = mapped_rows E records \<and>
         success_count + error_count = length records"
      apply (rule exI [of _ sc], rule exI [of _ ec], rule exI [of _ w'], rule exI [of _ w3],
          rule exI [of _ acts])
      using a by (intro conjI) assumption+
  qed
qed

theorem failures_are_counted_reported_and_isolated_witness:
  "insert_loop ref_env 3 1 [no_timestamp] 0 0 batch_world
     = ((0, 1), print (MsgInsertFailed 1 (KeyError ''timestamp'')) batch_world) \<and>
   insert_event ref_env bad_timestamp (print (MsgInsertFailed 1 (KeyError ''timestamp'')) batch_world)
     = (Inl ValueError, print (MsgInsertFailed 1 (KeyError ''timestamp'')) batch_world) \<and>
   insert_loop ref_env 3 1 ([no_timestamp] @ bad_timestamp # [ok_page_view]) 0 0 batch_world =
     insert_loop ref_env 3 (1 + length [no_timestamp] + 1) [ok_page_view] 0 (1 + 1)
       (print (MsgInsertFailed (1 + length [no_timestamp]) ValueError)
          (print (MsgInsertFailed 1 (KeyError ''timestamp'')) batch_world)) \<and>
   map_of (fs batch_world) ''data/events/a.json''
     = Some (File (Doc (JArr [ok_page_view, bad_timestamp, no_timestamp]))) \<and>
   (\<exists>success_count error_count w' acts.
      load_json_file ref_env ''data/events/a.json'' batch_world
        = (Inr (success_count, error_count), w') \<and>
      trace w' = trace batch_world @ acts \<and>
      error_count = length (failure_reports acts) \<and>
      (2, ValueError) \<in> set (failure_reports acts) \<and>
      (3, KeyError ''timestamp'') \<in> set (failure_reports acts) \<and>
      success_count + error_count = 3)"
proof -
  let ?w1 = "print (MsgInsertFailed 1 (KeyError ''timestamp'')) batch_world"
  let ?recs = "[ok_page_view, bad_timestamp, no_timestamp]"
  have h1: "insert_loop ref_env 3 1 [no_timestamp] 0 0 batch_world = ((0, 1), ?w1)"
    by (simp add: no_timestamp_def insert_event_def event_values_def)
  have h2: "insert_event ref_env bad_timestamp ?w1 = (Inl ValueError, ?w1)"
    by (simp add: bad_timestamp_def insert_event_def event_values_def ref_defs)
  have h3: "map_of (fs batch_world) ''data/events/a.json'' = Some (File (Doc (JArr ?recs)))"
    by (simp add: batch_world_def empty_world_def)
  note t = failures_are_counted_reported_and_isolated [of ref_env 3 1 "[no_timestamp]" 0 0
      batch_world 0 1 ?w1 bad_timestamp ValueError ?w1 "[ok_page_view]" batch_world
      "''data/events/a.json''" ?recs]
  from mp [OF conjunct1 [OF t] conjI [OF h1 h2]]
  have c1: "insert_loop ref_env 3 1 ([no_timestamp] @ bad_timestamp # [ok_page_view]) 0 0 batch_world =
     insert_loop ref_env 3 (1 + length [no_timestamp] + 1) [ok_page_view] 0 (1 + 1)
       (print (MsgInsertFailed (1 + length [no_timestamp]) ValueError) ?w1)" .
  from mp [OF conjunct2 [OF t] h3] obtain sc ec w' acts where
    a: "load_json_file ref_env ''data/events/a.json'' batch_world = (Inr (sc, ec), w')"
      "trace w' = trace batch_world @ acts"
      "ec = length (failure_reports acts)"
      "\<forall>i < length ?recs. \<forall>y. event_values ref_env (?recs ! i) = Inl y \<longrightarrow>
            (i + 1, y) \<in> set (failure_reports acts)"
      "sc + ec = length ?recs"
    by (elim exE conjE) (rule that; assumption)
  from a(4) have "(1::nat) < length ?recs \<longrightarrow> (\<forall>y. event_values ref_env (?recs ! 1) = Inl y \<longrightarrow>
            (1 + 1, y) \<in> set (failure_reports acts))" by (rule spec)
  with batch_values(1) have r2: "(2, ValueError) \<in> set (failure_reports acts)"
    by (simp add: numeral_2_eq_2)
  from a(4) have "(2::nat) < length ?recs \<longrightarrow> (\<forall>y. event_values ref_env (?recs ! 2) = Inl y \<longrightarrow>
            (2 + 1, y) \<in> set (failure_reports acts))" by (rule spec)
  with batch_values(2) have r3: "(3, KeyError ''timestamp'') \<in> set (failure_reports acts)"
    by (simp add: numeral_2_eq_2 numeral_3_eq_3)
  from a(5) have n: "sc + ec = 3" by simp
  have e: "\<exists>success_count error_count w' acts.
      load_json_file ref_env ''data/events/a.json'' batch_world
        = (Inr (success_count, error_count), w') \<and>
      trace w' = trace batch_world @ acts \<and>
      error_count = length (failure_reports acts) \<and>
      (2, ValueError) \<in> set (failure_reports acts) \<and>
      (3, KeyError ''timestamp'') \<in> set (failure_reports acts) \<and>
      success_count + error_count = 3"
    apply (rule exI [of _ sc], rule exI [of _ ec], rule exI [of _ w'], rule exI [of _ acts])
    using a(1) a(2) a(3) r2 r3 n by (intro conjI) assumption+
  show ?thesis
    by (rule conjI [OF h1 conjI [OF h2 conjI [OF c1 conjI [OF h3 e]]]])
qed

end
